theory Spec2Isabelle
  imports Complex_Main "HOL-Library.AList" "HOL-Library.Multiset" "HOL-Library.Log_Nat"
begin

section \<open>JavaScript values\<close>

text \<open>
  The scripts handle JSON data. A number is an IEEE double, modelled by the exact rational
  value the double has, with the three non-finite values beside it. A primitive is what
  a flat source record holds in one field; \<open>Undefined\<close> is what reading an absent
  field gives. A \<open>jsval\<close> is any JSON tree; \<open>JNative\<close> stands
  for a member inherited from \<open>Object.prototype\<close> (a function, or the prototype object
  itself), which a computed key such as \<open>constructor\<close> reaches on a plain object.
\<close>

datatype jsnum = Fin rat | NaN | PosInf | NegInf

datatype prim = Undefined | Null | Bool bool | Num jsnum | Str string

datatype jsval =
    JPrim prim
  | JArr "jsval list"
  | JObj "(string \<times> jsval) list"
  | JNative string

datatype exn = NetworkError | SyntaxError | TypeError | RateLimitError | ENOENT

abbreviation JNull :: jsval where
  "JNull \<equiv> JPrim Null"

abbreviation JUndefined :: jsval where
  "JUndefined \<equiv> JPrim Undefined"

text \<open>A flat source record: an object whose fields hold primitives, in key order.\<close>

type_synonym jsrecord = "(string \<times> prim) list"

text \<open>\<open>record.name\<close>: the field, or \<open>undefined\<close> when the record has no such key.\<close>

definition field :: "jsrecord \<Rightarrow> string \<Rightarrow> prim" where
  "field r k = (case map_of r k of None \<Rightarrow> Undefined | Some v \<Rightarrow> v)"

text \<open>
  ToString of a primitive, as a template literal and a computed property key apply it.
  The text of a number is the engine's (shortest round-trip digits of a double); it is
  the parameter \<open>nts\<close>.
\<close>

fun toStr :: "(jsnum \<Rightarrow> string) \<Rightarrow> prim \<Rightarrow> string" where
  "toStr nts Undefined = ''undefined''"
| "toStr nts Null = ''null''"
| "toStr nts (Bool b) = (if b then ''true'' else ''false'')"
| "toStr nts (Num n) = nts n"
| "toStr nts (Str s) = s"

text \<open>The names every plain object inherits from \<open>Object.prototype\<close>.\<close>

definition objectPrototypeNames :: "string list" where
  "objectPrototypeNames =
     [''constructor'', ''__proto__'', ''hasOwnProperty'', ''isPrototypeOf'',
      ''propertyIsEnumerable'', ''toLocaleString'', ''toString'', ''valueOf'',
      ''__defineGetter__'', ''__defineSetter__'', ''__lookupGetter__'',
      ''__lookupSetter__'']"

text \<open>\<open>obj[key]\<close> on an object used as a dictionary: own property first, then the prototype.\<close>

definition getProperty :: "(string \<rightharpoonup> jsval) \<Rightarrow> string \<Rightarrow> jsval" where
  "getProperty obj k =
     (case obj k of
        Some v \<Rightarrow> v
      | None \<Rightarrow> if k \<in> set objectPrototypeNames then JNative k else JUndefined)"

text \<open>
  \<open>v.name\<close> on an arbitrary value, for the names the scripts read (\<open>items\<close>,
  \<open>position\<close>, \<open>lng\<close>, \<open>lat\<close>, \<open>error\<close>), none of which a string, a number,
  an array or a function has of its own: reading a property of \<open>null\<close> or
  \<open>undefined\<close> throws.
\<close>

fun getField :: "jsval \<Rightarrow> string \<Rightarrow> exn + jsval" where
  "getField (JPrim Undefined) k = Inl TypeError"
| "getField (JPrim Null) k = Inl TypeError"
| "getField (JObj kvs) k = Inr (getProperty (map_of kvs) k)"
| "getField v k = Inr JUndefined"

fun nullish :: "jsval \<Rightarrow> bool" where
  "nullish (JPrim Undefined) = True"
| "nullish (JPrim Null) = True"
| "nullish v = False"

text \<open>\<open>a ?? b\<close>\<close>

definition coalesce :: "jsval \<Rightarrow> jsval \<Rightarrow> jsval" where
  "coalesce a b = (if nullish a then b else a)"

text \<open>ToBoolean, as \<open>if (geometry)\<close> applies it.\<close>

fun truthy :: "jsval \<Rightarrow> bool" where
  "truthy (JPrim Undefined) = False"
| "truthy (JPrim Null) = False"
| "truthy (JPrim (Bool b)) = b"
| "truthy (JPrim (Num (Fin q))) = (q \<noteq> 0)"
| "truthy (JPrim (Num NaN)) = False"
| "truthy (JPrim (Num PosInf)) = True"
| "truthy (JPrim (Num NegInf)) = True"
| "truthy (JPrim (Str s)) = (s \<noteq> [])"
| "truthy (JArr xs) = True"
| "truthy (JObj kvs) = True"
| "truthy (JNative n) = True"

section \<open>Features and the hospital normalizer\<close>

record feature =
  fid :: prim
  ftype :: string
  properties :: jsrecord
  geometry :: jsval

definition getLocationString :: "(jsnum \<Rightarrow> string) \<Rightarrow> jsrecord \<Rightarrow> string" where
  "getLocationString nts r =
     toStr nts (field r ''address'') @ '', '' @ toStr nts (field r ''citytown'') @ '', '' @
     toStr nts (field r ''state'') @ '', '' @ toStr nts (field r ''zip_code'')"

text \<open>
  The normalizers return the feature together with the record object as the call leaves
  it, so that a mutation of the argument is visible in the model.
\<close>

definition toGeoJsonFeature :: "jsrecord \<Rightarrow> feature \<times> jsrecord" where
  "toGeoJsonFeature r =
     (let i = field r ''facility_id''
      in (\<lparr> fid = i, ftype = ''Feature'', properties = r, geometry = JNull \<rparr>, r))"

section \<open>Existing-dataset loader\<close>

datatype 'a disk_file = Absent | Unparseable | Parsed 'a

text \<open>
  The directory \<open>existing\<close> as the loader sees it: the two files it looks for.
  \<open>all.geojson\<close> holds a feature collection, \<open>location-override.json\<close> an object
  from identifier to geometry.
\<close>

record existing_dir =
  all_geojson :: "feature list disk_file"
  location_override :: "(string \<rightharpoonup> jsval) disk_file"

record existing =
  edata :: "feature list option"
  locations :: "string \<rightharpoonup> jsval"
  override :: "string \<rightharpoonup> jsval"

text \<open>
  \<open>readObjectFromFile\<close>: the promise rejects with the read error when the file cannot
  be read (the second \<open>reject\<close>, from parsing \<open>undefined\<close>, comes too late to count),
  and with the parser's error when the text is not JSON.
\<close>

fun readObjectFromFile :: "'a disk_file \<Rightarrow> exn + 'a" where
  "readObjectFromFile Absent = Inl ENOENT"
| "readObjectFromFile Unparseable = Inl SyntaxError"
| "readObjectFromFile (Parsed v) = Inr v"

fun existsSync :: "'a disk_file \<Rightarrow> bool" where
  "existsSync Absent = False"
| "existsSync f = True"

text \<open>The body of the loader's \<open>for\<close> loop, lines 52 to 60.\<close>

definition indexFeature :: "(jsnum \<Rightarrow> string) \<Rightarrow> feature \<Rightarrow> (string \<rightharpoonup> jsval) \<Rightarrow> (string \<rightharpoonup> jsval)" where
  "indexFeature nts f locs =
     (if geometry f = JNull then locs
      else locs(getLocationString nts (properties f) \<mapsto> geometry f))"

definition loadExistingDataset :: "(jsnum \<Rightarrow> string) \<Rightarrow> existing_dir \<Rightarrow> exn + existing" where
  "loadExistingDataset nts dir =
     (if \<not> existsSync (all_geojson dir)
      then Inr \<lparr> edata = None, locations = Map.empty, override = Map.empty \<rparr>
      else case readObjectFromFile (all_geojson dir) of
             Inl e \<Rightarrow> Inl e
           | Inr all \<Rightarrow>
               (let locs = fold (indexFeature nts) all Map.empty
                in case readObjectFromFile (location_override dir) of
                     Inl e \<Rightarrow> Inl e
                   | Inr ov \<Rightarrow> Inr \<lparr> edata = Some all, locations = locs, override = ov \<rparr>))"

section \<open>Merging known locations into the incoming features\<close>

text \<open>
  The body of the loop of \<open>applyExistingLocationsToIncomingData\<close>. Both fields of
  \<open>existing\<close> are always objects here, so the two \<open>?? {}\<close> defaults never apply.
\<close>

definition applyOne :: "(jsnum \<Rightarrow> string) \<Rightarrow> existing \<Rightarrow> feature \<Rightarrow> feature" where
  "applyOne nts ex f =
     (let key = getLocationString nts (properties f);
          g = coalesce (getProperty (override ex) (toStr nts (fid f)))
                       (getProperty (locations ex) key)
      in if truthy g then f\<lparr> geometry := g \<rparr> else f)"

definition applyExistingLocationsToIncomingData ::
    "(jsnum \<Rightarrow> string) \<Rightarrow> feature list \<Rightarrow> existing \<Rightarrow> feature list" where
  "applyExistingLocationsToIncomingData nts incoming ex = map (applyOne nts ex) incoming"

section \<open>Live geocoding\<close>

definition geocodeRecordMax :: nat where
  "geocodeRecordMax = 100"

text \<open>
  What one HTTP exchange with the geocoding service gives: \<open>fetch\<close> rejects, or a
  response arrives with a status and a body that \<open>response.json()\<close> parses or not.
\<close>

datatype http = FetchFailed | Response nat "jsval option"

text \<open>
  The service is a parameter: the exchange it gives to the n-th call of the run, for a
  query and an API key. \<open>geocodeSingle\<close> throws when the exchange fails, when the body
  is not JSON, and on status 429 (the rate limit; building the message from a body that
  is \<open>null\<close> throws as well, another exception at the same place).
\<close>

type_synonym geocoder = "nat \<Rightarrow> string \<Rightarrow> string \<Rightarrow> http"

definition geocodeSingle :: "geocoder \<Rightarrow> nat \<Rightarrow> string \<Rightarrow> string \<Rightarrow> exn + jsval" where
  "geocodeSingle svc n query apiKey =
     (case svc n query apiKey of
        FetchFailed \<Rightarrow> Inl NetworkError
      | Response status body \<Rightarrow>
          (case body of
             None \<Rightarrow> Inl SyntaxError
           | Some json \<Rightarrow>
               if status = 429
               then (case getField json ''error'' of
                       Inl e \<Rightarrow> Inl e
                     | Inr v \<Rightarrow> Inl RateLimitError)
               else Inr json))"

definition pointGeometry :: "jsval \<Rightarrow> jsval \<Rightarrow> jsval" where
  "pointGeometry lng lat =
     JObj [(''type'', JPrim (Str ''Point'')), (''coordinates'', JArr [lng, lat])]"

text \<open>Lines 158 to 167: the first candidate's position becomes the geometry.\<close>

definition applyGeocode :: "jsval \<Rightarrow> feature \<Rightarrow> exn + feature" where
  "applyGeocode geocode f =
     (case getField geocode ''items'' of
        Inl e \<Rightarrow> Inl e
      | Inr items \<Rightarrow>
          (case items of
             JArr (first # others) \<Rightarrow>
               (case getField first ''position'' of
                  Inl e \<Rightarrow> Inl e
                | Inr position \<Rightarrow>
                    (case getField position ''lng'' of
                       Inl e \<Rightarrow> Inl e
                     | Inr lng \<Rightarrow>
                         (case getField position ''lat'' of
                            Inl e \<Rightarrow> Inl e
                          | Inr lat \<Rightarrow> Inr (f\<lparr> geometry := pointGeometry lng lat \<rparr>))))
           | _ \<Rightarrow> Inr f))"

text \<open>
  The loop of \<open>geocodeIncomingData\<close>, from a value \<open>cnt\<close> of \<open>count\<close> on the rest of the
  array. It gives the array as the loop leaves it, the final \<open>count\<close>, and the exception
  that left the function, if one did. An exception of \<open>geocodeSingle\<close> is caught and
  ends the loop; one raised while reading the answer is not caught.
\<close>

fun geocodeLoop ::
    "(jsnum \<Rightarrow> string) \<Rightarrow> geocoder \<Rightarrow> string \<Rightarrow> nat \<Rightarrow> feature list \<Rightarrow>
     feature list \<times> nat \<times> exn option" where
  "geocodeLoop nts svc apiKey cnt [] = ([], cnt, None)"
| "geocodeLoop nts svc apiKey cnt (f # rest) =
     (if geometry f \<noteq> JNull
      then (case geocodeLoop nts svc apiKey cnt rest of
              (rest', r) \<Rightarrow> (f # rest', r))
      else (case geocodeSingle svc (cnt + 1) (getLocationString nts (properties f)) apiKey of
              Inl ex \<Rightarrow> (f # rest, cnt + 1, None)
            | Inr geocode \<Rightarrow>
                (case applyGeocode geocode f of
                   Inl e \<Rightarrow> (f # rest, cnt + 1, Some e)
                 | Inr f' \<Rightarrow>
                     if cnt + 1 \<ge> geocodeRecordMax
                     then (f' # rest, cnt + 1, None)
                     else (case geocodeLoop nts svc apiKey (cnt + 1) rest of
                             (rest', r) \<Rightarrow> (f' # rest', r)))))"

text \<open>
  The same loop, followed over the first features of the array for as long as it goes
  on to the next one: the features as the loop leaves them behind and the value of
  \<open>count\<close> it has reached, or \<open>None\<close> when the loop ends among them (a call that
  throws, an answer that cannot be read, the limit of calls).
\<close>

fun geocodePassed ::
    "(jsnum \<Rightarrow> string) \<Rightarrow> geocoder \<Rightarrow> string \<Rightarrow> nat \<Rightarrow> feature list \<Rightarrow>
     (feature list \<times> nat) option" where
  "geocodePassed nts svc apiKey cnt [] = Some ([], cnt)"
| "geocodePassed nts svc apiKey cnt (f # rest) =
     (if geometry f \<noteq> JNull
      then (case geocodePassed nts svc apiKey cnt rest of
              None \<Rightarrow> None
            | Some (rest', n) \<Rightarrow> Some (f # rest', n))
      else (case geocodeSingle svc (cnt + 1) (getLocationString nts (properties f)) apiKey of
              Inl ex \<Rightarrow> None
            | Inr geocode \<Rightarrow>
                (case applyGeocode geocode f of
                   Inl e \<Rightarrow> None
                 | Inr f' \<Rightarrow>
                     if cnt + 1 \<ge> geocodeRecordMax
                     then None
                     else (case geocodePassed nts svc apiKey (cnt + 1) rest of
                             None \<Rightarrow> None
                           | Some (rest', n) \<Rightarrow> Some (f' # rest', n)))))"

definition geocodeIncomingData ::
    "(jsnum \<Rightarrow> string) \<Rightarrow> geocoder \<Rightarrow> feature list \<Rightarrow> string \<Rightarrow>
     feature list \<times> nat \<times> exn option" where
  "geocodeIncomingData nts svc data apiKey = geocodeLoop nts svc apiKey 0 data"

section \<open>Paginated download\<close>

definition downloadBatchSize :: nat where
  "downloadBatchSize = 500"

record page =
  results :: "jsrecord list"
  pcount :: int

text \<open>
  The endpoint is a parameter: what a request for an offset and a limit gives, a page or
  the exception of \<open>fetch\<close> or of the JSON parser.
\<close>

type_synonym endpoint = "nat \<Rightarrow> nat \<Rightarrow> exn + page"

text \<open>
  The \<open>do ... while\<close> loop of \<open>downloadHospitalList\<close>, from the state it has at the
  top of an iteration. \<open>None\<close> is a loop that never ends.
\<close>

partial_function (option) downloadLoop ::
    "endpoint \<Rightarrow> nat \<Rightarrow> jsrecord list \<Rightarrow> (exn + jsrecord list) option" where
  "downloadLoop server offset records =
     (case server offset downloadBatchSize of
        Inl e \<Rightarrow> Some (Inl e)
      | Inr response \<Rightarrow>
          if int (length (records @ results response)) < pcount response
          then downloadLoop server (offset + length (results response))
                 (records @ results response)
          else Some (Inr (records @ results response)))"

declare downloadLoop.simps [code]

definition downloadHospitalList :: "endpoint \<Rightarrow> (exn + jsrecord list) option" where
  "downloadHospitalList server = downloadLoop server 0 []"

section \<open>Grouping and writing\<close>

text \<open>
  \<open>groupBy\<close> collects into a plain object: a key that names an inherited member finds
  that member instead of a group, and \<open>group.push\<close> throws. The loop keeps the groups
  in the order their keys were added.
\<close>

fun groupByLoop ::
    "('a \<Rightarrow> string) \<Rightarrow> 'a list \<Rightarrow> (string \<times> 'a list) list \<Rightarrow> exn + (string \<times> 'a list) list" where
  "groupByLoop selector [] result = Inr result"
| "groupByLoop selector (item # rest) result =
     (case map_of result (selector item) of
        Some grp \<Rightarrow>
          groupByLoop selector rest (AList.update (selector item) (grp @ [item]) result)
      | None \<Rightarrow>
          if selector item \<in> set objectPrototypeNames then Inl TypeError
          else groupByLoop selector rest (result @ [(selector item, [item])]))"

text \<open>
  The order in which an object lists its own keys, to \<open>for (key in object)\<close> and to
  \<open>Object.keys\<close>: first the keys that are array indices (the decimal numeral, without
  a leading zero, of a number below \<open>2^32 - 1\<close>) by their value, then the other keys as
  they were added.
\<close>

definition digit :: "char \<Rightarrow> nat option" where
  "digit c = map_of (zip ''0123456789'' [0 ..< 10]) c"

definition arrayIndex :: "string \<Rightarrow> nat option" where
  "arrayIndex s =
     (case those (map digit s) of
        None \<Rightarrow> None
      | Some ds \<Rightarrow>
          if ds = [] then None
          else if hd ds = 0 \<and> length ds > 1 then None
          else if fold (\<lambda>d n. 10 * n + d) ds 0 < 2 ^ 32 - 1
          then Some (fold (\<lambda>d n. 10 * n + d) ds 0)
          else None)"

definition ownEntries :: "(string \<times> 'a) list \<Rightarrow> (string \<times> 'a) list" where
  "ownEntries kvs =
     sort_key (\<lambda>kv. case arrayIndex (fst kv) of Some n \<Rightarrow> n | None \<Rightarrow> 0)
       (filter (\<lambda>kv. arrayIndex (fst kv) \<noteq> None) kvs)
     @ filter (\<lambda>kv. arrayIndex (fst kv) = None) kvs"

text \<open>\<open>groupBy\<close> gives the groups as the object it returns lists them.\<close>

definition groupBy :: "'a list \<Rightarrow> ('a \<Rightarrow> string) \<Rightarrow> exn + (string \<times> 'a list) list" where
  "groupBy array selector =
     (case groupByLoop selector array [] of
        Inl e \<Rightarrow> Inl e
      | Inr result \<Rightarrow> Inr (ownEntries result))"

text \<open>
  The files a run writes under the destination root. Which file a path names is for
  \<open>path.join\<close> and the file system to say (\<open>path.join\<close> resolves \<open>.\<close> and \<open>..\<close>, a
  separator inside a component opens a directory, a file system may take two names for
  one): \<open>locate\<close> is given the components that follow the root and answers with the file
  they name, or with the error of a write there, as for a directory that does not exist.
  \<open>writeObjectToFile\<close> rejects with that error; otherwise the file holds the new
  document in place of what it held. A write that fails for a reason other than its path
  is not modelled.
\<close>

datatype document =
    FeatureCollection "feature list"
  | Metadata nat "(string \<times> string list) list"

type_synonym locator = "string list \<Rightarrow> exn + string"

type_synonym files = "(string \<times> document) list"

definition writeObjectToFile :: "locator \<Rightarrow> string list \<Rightarrow> document \<Rightarrow> files \<Rightarrow> exn + files" where
  "writeObjectToFile locate fileName d fs =
     (case locate fileName of
        Inl e \<Rightarrow> Inl e
      | Inr file \<Rightarrow> Inr (AList.update file d fs))"

definition isString :: "prim \<Rightarrow> bool" where
  "isString v = (case v of Str s \<Rightarrow> True | _ \<Rightarrow> False)"

text \<open>
  One grouping of \<open>execute\<close> (lines 209 to 218, and again 220 to 229): the features
  with a string under the property are grouped by it, and each group is written to the
  file named by its lowercased key in the property's directory. \<open>lower\<close> is the engine's
  \<open>toLowerCase\<close>. A write that fails ends the loop with its error; the files written
  before stay.
\<close>

fun writeGroups ::
    "locator \<Rightarrow> (string \<Rightarrow> string) \<Rightarrow> string \<Rightarrow> (string \<times> feature list) list \<Rightarrow> files \<Rightarrow>
     exn \<times> files + files" where
  "writeGroups locate lower dir [] fs = Inr fs"
| "writeGroups locate lower dir (kg # rest) fs =
     (case writeObjectToFile locate [dir, lower (fst kg) @ ''.geojson'']
             (FeatureCollection (snd kg)) fs of
        Inl e \<Rightarrow> Inl (e, fs)
      | Inr fs' \<Rightarrow> writeGroups locate lower dir rest fs')"

definition groupFeatures ::
    "(jsnum \<Rightarrow> string) \<Rightarrow> string \<Rightarrow> feature list \<Rightarrow> exn + (string \<times> feature list) list" where
  "groupFeatures nts p incoming =
     groupBy (filter (\<lambda>s. isString (field (properties s) p)) incoming)
             (\<lambda>s. toStr nts (field (properties s) p))"

definition groupAndWrite ::
    "(jsnum \<Rightarrow> string) \<Rightarrow> locator \<Rightarrow> (string \<Rightarrow> string) \<Rightarrow> string \<Rightarrow> string \<Rightarrow> feature list \<Rightarrow>
     files \<Rightarrow> exn \<times> files + (string \<times> feature list) list \<times> files" where
  "groupAndWrite nts locate lower dir p incoming fs =
     (case groupFeatures nts p incoming of
        Inl e \<Rightarrow> Inl (e, fs)
      | Inr groups \<Rightarrow>
          (case writeGroups locate lower dir groups fs of
             Inl failed \<Rightarrow> Inl failed
           | Inr fs' \<Rightarrow> Inr (groups, fs')))"

section \<open>The hospital run\<close>

text \<open>
  The command line, as far as the run depends on it: what \<open>--existing\<close> points to and
  the value of \<open>--hereapikey\<close> (a string, \<open>true\<close>, or \<open>undefined\<close> when not given).
\<close>

record args =
  existing_at :: existing_dir
  hereapikey :: prim

text \<open>Lines 198 to 202: merge, then geocode when an API key was given.\<close>

definition reconcile ::
    "(jsnum \<Rightarrow> string) \<Rightarrow> geocoder \<Rightarrow> prim \<Rightarrow> feature list \<Rightarrow> existing \<Rightarrow>
     feature list \<times> nat \<times> exn option" where
  "reconcile nts svc key incoming ex =
     (case key of
        Str k \<Rightarrow> geocodeIncomingData nts svc (applyExistingLocationsToIncomingData nts incoming ex) k
      | _ \<Rightarrow> (applyExistingLocationsToIncomingData nts incoming ex, 0, None))"

text \<open>
  Lines 204 to 249: the files the run writes, with the exception that stopped it, if
  one did; the files written before the exception stay.
\<close>

definition writeOutputs ::
    "(jsnum \<Rightarrow> string) \<Rightarrow> locator \<Rightarrow> (string \<Rightarrow> string) \<Rightarrow> feature list \<Rightarrow> exn option \<times> files" where
  "writeOutputs nts locate lower incoming =
     (case writeObjectToFile locate [''all.geojson''] (FeatureCollection incoming) [] of
        Inl e \<Rightarrow> (Some e, [])
      | Inr fs1 \<Rightarrow>
          (case groupAndWrite nts locate lower ''state'' ''state'' incoming fs1 of
             Inl (e, fs) \<Rightarrow> (Some e, fs)
           | Inr (byState, fs2) \<Rightarrow>
               (case groupAndWrite nts locate lower ''emergency_services'' ''emergency_services''
                       incoming fs2 of
                  Inl (e, fs) \<Rightarrow> (Some e, fs)
                | Inr (byEmergencyServices, fs3) \<Rightarrow>
                    (case writeObjectToFile locate [''metadata.json'']
                            (Metadata (length incoming)
                               [(''state'', map fst byState),
                                (''emergency_services'', map fst byEmergencyServices)])
                            fs3 of
                       Inl e \<Rightarrow> (Some e, fs3)
                     | Inr fs4 \<Rightarrow> (None, fs4)))))"

text \<open>
  \<open>execute\<close>. \<open>srt\<close> is the engine's \<open>sort\<close> under the comparator of lines 191 to
  196, which never answers "equal" and so leaves the order of equal names to the engine.
  Creating the output directories has no part in what follows and is left out. \<open>None\<close>
  is a run whose download never ends; otherwise the run gives the exception that ended
  it, if any, and the files it wrote.
\<close>

definition execute ::
    "(jsnum \<Rightarrow> string) \<Rightarrow> (feature list \<Rightarrow> feature list) \<Rightarrow> endpoint \<Rightarrow> geocoder \<Rightarrow>
     locator \<Rightarrow> (string \<Rightarrow> string) \<Rightarrow> args \<Rightarrow> (exn option \<times> files) option" where
  "execute nts srt server svc locate lower a =
     (case loadExistingDataset nts (existing_at a) of
        Inl e \<Rightarrow> Some (Some e, [])
      | Inr ex \<Rightarrow>
          (case downloadHospitalList server of
             None \<Rightarrow> None
           | Some (Inl e) \<Rightarrow> Some (Some e, [])
           | Some (Inr download) \<Rightarrow>
               (case reconcile nts svc (hereapikey a)
                       (srt (map (\<lambda>r. fst (toGeoJsonFeature r)) download)) ex of
                  (incoming, n, Some e) \<Rightarrow> Some (Some e, [])
                | (incoming, n, None) \<Rightarrow> Some (writeOutputs nts locate lower incoming))))"

section \<open>What a written feature collection reads back as\<close>

text \<open>
  \<open>JSON.stringify\<close> leaves out a property whose value is \<open>undefined\<close> or a function
  and writes \<open>null\<close> for such an element of an array and for a number that is not
  finite; the prototype object itself is written as an empty object.
\<close>

fun emitted :: "jsval \<Rightarrow> bool" where
  "emitted (JPrim Undefined) = False"
| "emitted (JNative n) = (n = ''__proto__'')"
| "emitted v = True"

fun jsonPrim :: "prim \<Rightarrow> prim" where
  "jsonPrim (Num (Fin q)) = Num (Fin q)"
| "jsonPrim (Num n) = Null"
| "jsonPrim p = p"

fun jsonValue :: "jsval \<Rightarrow> jsval"
  and jsonElems :: "jsval list \<Rightarrow> jsval list"
  and jsonProps :: "(string \<times> jsval) list \<Rightarrow> (string \<times> jsval) list" where
  "jsonValue (JPrim p) = JPrim (jsonPrim p)"
| "jsonValue (JArr xs) = JArr (jsonElems xs)"
| "jsonValue (JObj kvs) = JObj (jsonProps kvs)"
| "jsonValue (JNative n) = JObj []"
| "jsonElems [] = []"
| "jsonElems (x # xs) = (if emitted x then jsonValue x else JNull) # jsonElems xs"
| "jsonProps [] = []"
| "jsonProps ((k, v) # kvs) = (if emitted v then [(k, jsonValue v)] else []) @ jsonProps kvs"

definition jsonRecord :: "jsrecord \<Rightarrow> jsrecord" where
  "jsonRecord r = map (\<lambda>(k, v). (k, jsonPrim v)) (filter (\<lambda>(k, v). v \<noteq> Undefined) r)"

text \<open>
  What the next run finds under \<open>geometry\<close> in a written feature: the value as JSON
  keeps it, or \<open>undefined\<close> when the property was left out.
\<close>

definition storedGeometry :: "jsval \<Rightarrow> jsval" where
  "storedGeometry g = (if emitted g then jsonValue g else JUndefined)"

text \<open>A feature of the array written to \<open>all.geojson\<close>, as the next run parses it.\<close>

definition storedFeature :: "feature \<Rightarrow> feature" where
  "storedFeature f =
     \<lparr> fid = jsonPrim (fid f), ftype = ftype f, properties = jsonRecord (properties f),
       geometry = storedGeometry (geometry f) \<rparr>"

text \<open>
  The merge step of a run that finds, in its \<open>existing\<close> directory, the
  \<open>all.geojson\<close> a previous run wrote from the features \<open>previous\<close>, and an override
  file holding \<open>ov\<close>.
\<close>

definition rerunMerge ::
    "(jsnum \<Rightarrow> string) \<Rightarrow> feature list \<Rightarrow> feature list \<Rightarrow> (string \<rightharpoonup> jsval) \<Rightarrow> exn + feature list" where
  "rerunMerge nts incoming previous ov =
     (case loadExistingDataset nts
             \<lparr> all_geojson = Parsed (map storedFeature previous), location_override = Parsed ov \<rparr> of
        Inl e \<Rightarrow> Inl e
      | Inr ex \<Rightarrow> Inr (applyExistingLocationsToIncomingData nts incoming ex))"

section \<open>The normalizers of the ports and airports scripts\<close>

definition accuracy :: nat where
  "accuracy = 6"

text \<open>
  The double nearest to a rational number, as the engine reads a decimal numeral. Around
  \<open>r\<close> with \<open>2^e \<le> |r| < 2^(e+1)\<close> the doubles are the multiples of \<open>2^(e-52)\<close>;
  \<open>r\<close> goes to the nearest of them, and of two equally near to the one with the even
  multiplier. The limits of the exponent (subnormal numbers, overflow) are left out: the
  numerals read here lie far from them.
\<close>

definition binade :: "rat \<Rightarrow> int" where
  "binade r =
     (case quotient_of \<bar>r\<bar> of
        (a, b) \<Rightarrow>
          if 2 powi (bitlen a - bitlen b) \<le> \<bar>r\<bar> then bitlen a - bitlen b
          else bitlen a - bitlen b - 1)"

definition roundEven :: "rat \<Rightarrow> int" where
  "roundEven t =
     (if t - of_int \<lfloor>t\<rfloor> < 1 / 2 then \<lfloor>t\<rfloor>
      else if 1 / 2 < t - of_int \<lfloor>t\<rfloor> then \<lfloor>t\<rfloor> + 1
      else if even \<lfloor>t\<rfloor> then \<lfloor>t\<rfloor> else \<lfloor>t\<rfloor> + 1)"

definition nearestDouble :: "rat \<Rightarrow> rat" where
  "nearestDouble r =
     (if r = 0 then 0
      else of_int (roundEven (r / 2 powi (binade r - 52))) * 2 powi (binade r - 52))"

text \<open>
  \<open>parseFloat(x.toFixed(d))\<close> on a number. \<open>toFixed\<close> works on the exact value of
  the double: it takes the integer \<open>n\<close> with \<open>n / 10^d\<close> nearest to the magnitude (the
  larger of two), keeps the sign, and prints \<open>d\<close> decimals; \<open>parseFloat\<close> reads that
  numeral as the double nearest to it. From \<open>10^21\<close> on, and for the values that are
  not finite, \<open>toFixed\<close> prints the number as it is and \<open>parseFloat\<close> reads the same
  number back.
\<close>

fun roundFixed :: "nat \<Rightarrow> jsnum \<Rightarrow> jsnum" where
  "roundFixed d (Fin q) =
     (if \<bar>q\<bar> \<ge> 10 ^ 21 then Fin q
      else Fin (nearestDouble (sgn q * of_int \<lfloor>\<bar>q\<bar> * 10 ^ d + 1 / 2\<rfloor> / 10 ^ d)))"
| "roundFixed d NaN = NaN"
| "roundFixed d PosInf = PosInf"
| "roundFixed d NegInf = NegInf"

text \<open>
  \<open>parseFloat\<close> of a field: a string is read by the engine's parser, the parameter
  \<open>pf\<close>; a number prints and reads back as itself; everything else prints as a word.
\<close>

fun parseFloat :: "(string \<Rightarrow> jsnum) \<Rightarrow> prim \<Rightarrow> jsnum" where
  "parseFloat pf (Str s) = pf s"
| "parseFloat pf (Num n) = n"
| "parseFloat pf v = NaN"

text \<open>\<open>s.substr(start, n)\<close>; a negative length gives the empty string.\<close>

definition substr :: "nat \<Rightarrow> nat \<Rightarrow> string \<Rightarrow> string" where
  "substr start n s = take n (drop start s)"

text \<open>
  Ports: \<open>substr\<close> exists on strings only and \<open>toFixed\<close> on numbers only; the call on
  anything else throws.
\<close>

definition toGeoJsonFeature_ports :: "jsrecord \<Rightarrow> exn + feature \<times> jsrecord" where
  "toGeoJsonFeature_ports port =
     (case field port ''globalId'' of
        Str g \<Rightarrow>
          (case field port ''ycoord'' of
             Num y \<Rightarrow>
               (case field port ''xcoord'' of
                  Num x \<Rightarrow>
                    Inr (\<lparr> fid = Str (substr 1 (length g - 2) g), ftype = ''Feature'',
                           properties = port,
                           geometry = pointGeometry (JPrim (Num (roundFixed accuracy x)))
                                        (JPrim (Num (roundFixed accuracy y))) \<rparr>, port)
                | _ \<Rightarrow> Inl TypeError)
           | _ \<Rightarrow> Inl TypeError)
      | _ \<Rightarrow> Inl TypeError)"

text \<open>Airports: lines 27 to 33 delete every key that holds \<open>null\<close> or the empty string.\<close>

definition pruneEmpty :: "jsrecord \<Rightarrow> jsrecord" where
  "pruneEmpty r =
     fold (\<lambda>key acc. if field acc key = Null \<or> field acc key = Str [] then AList.delete key acc else acc)
          (map fst r) r"

definition toGeoJsonFeature_airports :: "(string \<Rightarrow> jsnum) \<Rightarrow> jsrecord \<Rightarrow> feature \<times> jsrecord" where
  "toGeoJsonFeature_airports pf r =
     (let i = field r ''id'';
          lat = roundFixed accuracy (parseFloat pf (field r ''latitude_deg''));
          lon = roundFixed accuracy (parseFloat pf (field r ''longitude_deg''));
          r' = pruneEmpty (AList.delete ''longitude_deg'' (AList.delete ''latitude_deg'' (AList.delete ''id'' r)))
      in (\<lparr> fid = i, ftype = ''Feature'', properties = r',
             geometry = pointGeometry (JPrim (Num lon)) (JPrim (Num lat)) \<rparr>, r'))"

section \<open>Counting what is left unresolved\<close>

definition unresolved :: "feature list \<Rightarrow> feature list" where
  "unresolved fs = filter (\<lambda>f. geometry f = JNull) fs"

section \<open>Rounded coordinates\<close>

text \<open>
  The coordinates of a geometry object. A coordinate counts as rounded to \<open>d\<close>
  decimal places when it is a double as close to the nearest number of \<open>d\<close> decimals
  as doubles get: within one part in \<open>2^52\<close> of its magnitude. It is the rounding of a
  source value \<open>x\<close> when, besides, it lies within half a unit of the \<open>d\<close>-th decimal
  of \<open>x\<close>, up to the same margin.
\<close>

fun coordinates :: "jsval \<Rightarrow> jsval list" where
  "coordinates (JObj kvs) = (case map_of kvs ''coordinates'' of Some (JArr cs) \<Rightarrow> cs | _ \<Rightarrow> [])"
| "coordinates v = []"

definition roundedTo :: "nat \<Rightarrow> jsval \<Rightarrow> bool" where
  "roundedTo d v =
     (case v of
        JPrim (Num (Fin c)) \<Rightarrow> \<bar>c - of_int (round (c * 10 ^ d)) / 10 ^ d\<bar> \<le> \<bar>c\<bar> / 2 ^ 52
      | _ \<Rightarrow> False)"

definition roundingOf :: "nat \<Rightarrow> rat \<Rightarrow> jsval \<Rightarrow> bool" where
  "roundingOf d x v =
     (case v of
        JPrim (Num (Fin c)) \<Rightarrow> roundedTo d v \<and> \<bar>c - x\<bar> \<le> 1 / (2 * 10 ^ d) + \<bar>c\<bar> / 2 ^ 52
      | _ \<Rightarrow> False)"

section \<open>The files of one grouping\<close>

text \<open>
  What the files hold that a run has written: the document at a path, the distinct
  strings the features have under a property, the paths the run gives to their groups,
  the files these paths name, and the features those files hold together.
\<close>

fun featuresOf :: "document \<Rightarrow> feature list" where
  "featuresOf (FeatureCollection fs) = fs"
| "featuresOf (Metadata n ps) = []"

definition fileAt :: "locator \<Rightarrow> files \<Rightarrow> string list \<Rightarrow> document option" where
  "fileAt locate fs path = (case locate path of Inl e \<Rightarrow> None | Inr file \<Rightarrow> map_of fs file)"

definition stringValues :: "string \<Rightarrow> feature list \<Rightarrow> string list" where
  "stringValues p fs =
     remdups (concat (map (\<lambda>f. case field (properties f) p of Str s \<Rightarrow> [s] | _ \<Rightarrow> []) fs))"

definition valuePaths :: "(string \<Rightarrow> string) \<Rightarrow> string \<Rightarrow> feature list \<Rightarrow> string list list" where
  "valuePaths lower p incoming = map (\<lambda>v. [p, lower v @ ''.geojson'']) (stringValues p incoming)"

definition valueFiles :: "locator \<Rightarrow> (string \<Rightarrow> string) \<Rightarrow> string \<Rightarrow> feature list \<Rightarrow> string list" where
  "valueFiles locate lower p incoming =
     remdups (concat (map (\<lambda>path. case locate path of Inl e \<Rightarrow> [] | Inr file \<Rightarrow> [file])
                          (valuePaths lower p incoming)))"

definition groupedFeatures ::
    "locator \<Rightarrow> (string \<Rightarrow> string) \<Rightarrow> string \<Rightarrow> feature list \<Rightarrow> files \<Rightarrow> feature list" where
  "groupedFeatures locate lower p incoming fs =
     concat (map (\<lambda>file. case map_of fs file of None \<Rightarrow> [] | Some d \<Rightarrow> featuresOf d)
                 (valueFiles locate lower p incoming))"

text \<open>The paths a run writes besides those of a property's groups.\<close>

definition otherPaths :: "(string \<Rightarrow> string) \<Rightarrow> string \<Rightarrow> feature list \<Rightarrow> string list list" where
  "otherPaths lower q incoming =
     [''all.geojson''] # [''metadata.json''] # valuePaths lower q incoming"

section \<open>Sample data\<close>

text \<open>
  Two hospital records at one address, the features made from them, and two points.
  None of the sample records holds a number, so any printer of numbers will do.
\<close>

definition noNumbers :: "jsnum \<Rightarrow> string" where
  "noNumbers n = ''0''"

definition point :: "rat \<Rightarrow> rat \<Rightarrow> jsval" where
  "point lng lat = pointGeometry (JPrim (Num (Fin lng))) (JPrim (Num (Fin lat)))"

definition recordA :: jsrecord where
  "recordA = [(''facility_id'', Str ''A''), (''address'', Str ''1 Main St''),
              (''citytown'', Str ''X''), (''state'', Str ''Y''), (''zip_code'', Str ''1'')]"

definition recordB :: jsrecord where
  "recordB = [(''facility_id'', Str ''B''), (''address'', Str ''1 Main St''),
              (''citytown'', Str ''X''), (''state'', Str ''Y''), (''zip_code'', Str ''1'')]"

definition hospitalA :: feature where
  "hospitalA = fst (toGeoJsonFeature recordA)"

definition hospitalB :: feature where
  "hospitalB = fst (toGeoJsonFeature recordB)"

text \<open>A geocoding service that answers every query with one candidate.\<close>

definition cannedService :: geocoder where
  "cannedService n query apiKey =
     Response 200 (Some (JObj [(''items'', JArr [JObj [(''position'',
        JObj [(''lat'', JPrim (Num (Fin 6))), (''lng'', JPrim (Num (Fin 5)))])]])]))"

definition noExisting :: existing where
  "noExisting = \<lparr> edata = None, locations = Map.empty, override = Map.empty \<rparr>"

text \<open>
  Two endpoints: one reports two records and gives one per page; the other reports
  two, gives one at offset 0 and none at any other offset.
\<close>

definition steadyServer :: endpoint where
  "steadyServer offset limit = Inr \<lparr> results = [recordA], pcount = 2 \<rparr>"


text \<open>
  A service that cannot be reached, one that answers \<open>null\<close>, and the directory of a
  first run.
\<close>

definition downService :: geocoder where
  "downService n query apiKey = FetchFailed"

definition nullService :: geocoder where
  "nullService n query apiKey = Response 200 (Some JNull)"

definition firstRun :: existing_dir where
  "firstRun = \<lparr> all_geojson = Absent, location_override = Absent \<rparr>"

text \<open>
  A service that answers the first call of a run and cannot be reached after it, and
  an endpoint that reports three records and gives one per page.
\<close>

definition onceService :: geocoder where
  "onceService n query apiKey = (if n = 1 then cannedService n query apiKey else FetchFailed)"

definition tripleServer :: endpoint where
  "tripleServer offset limit = Inr \<lparr> results = [recordA], pcount = 3 \<rparr>"

text \<open>
  An airport row and a port record, a reader of the two numerals the airport row
  holds, and a service whose candidate has seven decimals in its latitude. The numbers
  are doubles: \<open>40.0703125\<close> is \<open>5129 / 128\<close>, \<open>-74.25\<close> is \<open>-297 / 4\<close>, and the
  double nearest to \<open>40.070313\<close> is \<open>704924401153981 / 2^44\<close>.
\<close>

definition airportRecord :: jsrecord where
  "airportRecord = [(''id'', Str ''6523''), (''type'', Str ''heliport''), (''latitude_deg'', Str ''40.0703125''),
                    (''longitude_deg'', Str ''-74.25''), (''home_link'', Str '''')]"

definition sampleParse :: "string \<Rightarrow> jsnum" where
  "sampleParse s =
     (if s = ''40.0703125'' then Fin (5129 / 128)
      else if s = ''-74.25'' then Fin (- 297 / 4) else NaN)"

definition portRecord :: jsrecord where
  "portRecord = [(''globalId'', Str ''{AB-1}''), (''portName'', Str ''Maurer''),
                 (''xcoord'', Num (Fin (- 297 / 4))), (''ycoord'', Num (Fin (5129 / 128)))]"

definition portFeature :: feature where
  "portFeature = \<lparr> fid = Str ''AB-1'', ftype = ''Feature'', properties = portRecord,
                   geometry = point (- 297 / 4) (704924401153981 / 2 ^ 44) \<rparr>"

definition precisePosition :: jsval where
  "precisePosition = JObj [(''lat'', JPrim (Num (Fin (5129 / 128)))),
                           (''lng'', JPrim (Num (Fin (- 297 / 4))))]"

definition preciseAnswer :: jsval where
  "preciseAnswer = JObj [(''items'', JArr [JObj [(''position'', precisePosition)]])]"

definition preciseService :: geocoder where
  "preciseService n query apiKey = Response 200 (Some preciseAnswer)"

text \<open>
  For the samples: \<open>toLowerCase\<close> on ASCII letters, and a file system in which every
  write succeeds and a path names the file that its components spell, joined by \<open>/\<close>.
\<close>

definition lowerChar :: "char \<Rightarrow> char" where
  "lowerChar c =
     (case map_of (zip ''ABCDEFGHIJKLMNOPQRSTUVWXYZ'' ''abcdefghijklmnopqrstuvwxyz'') c of
        Some l \<Rightarrow> l
      | None \<Rightarrow> c)"

definition asciiLowerCase :: "string \<Rightarrow> string" where
  "asciiLowerCase s = map lowerChar s"

fun joined :: "string list \<Rightarrow> string" where
  "joined [] = ''.''"
| "joined [c] = c"
| "joined (c # cs) = c @ ''/'' @ joined cs"

definition plainFiles :: locator where
  "plainFiles path = Inr (joined path)"

text \<open>Two hospitals whose states differ only in case.\<close>

definition hospitalUpper :: feature where
  "hospitalUpper = fst (toGeoJsonFeature [(''facility_id'', Str ''1''), (''state'', Str ''CA'')])"

definition hospitalLower :: feature where
  "hospitalLower = fst (toGeoJsonFeature [(''facility_id'', Str ''2''), (''state'', Str ''ca'')])"


definition overrideOnly :: existing_dir where
  "overrideOnly = \<lparr> all_geojson = Absent, location_override = Parsed [''A'' \<mapsto> point (- 1) 2] \<rparr>"

text \<open>
  What a run may know beforehand: a location index that resolves the sample address, and
  an override for hospital A.
\<close>

definition priorIndex :: existing where
  "priorIndex = \<lparr> edata = None, locations = [''1 Main St, X, Y, 1'' \<mapsto> point 3 4],
                   override = [''A'' \<mapsto> point (- 1) 2] \<rparr>"

section \<open>Override precedence\<close>

lemma applyOne_override:
  "override ex (toStr nts (fid f)) = Some (JObj kvs) \<Longrightarrow>
   geometry (applyOne nts ex f) = JObj kvs"
  by (simp add: applyOne_def getProperty_def coalesce_def)

lemma sample_keys:
  "getLocationString nts (properties hospitalA) = ''1 Main St, X, Y, 1''"
  "getLocationString nts (properties hospitalB) = ''1 Main St, X, Y, 1''"
  "fid hospitalA = Str ''A''" "fid hospitalB = Str ''B''"
  "geometry hospitalA = JNull" "geometry hospitalB = JNull"
  by (simp_all add: hospitalA_def hospitalB_def recordA_def recordB_def toGeoJsonFeature_def
        getLocationString_def field_def)

text \<open>
  C1. A feature with null geometry whose id has an entry in the override map holding a
  geometry object, and whose Location Key has an entry in the location index, comes out
  of the merge step with the override geometry, whatever the index holds.
\<close>

theorem override_precedence:
  assumes "i < length incoming"
    and "geometry (incoming ! i) = JNull"
    and "override ex (toStr nts (fid (incoming ! i))) = Some (JObj kvs)"
    and "locations ex (getLocationString nts (properties (incoming ! i))) = Some g'"
  shows "geometry (applyExistingLocationsToIncomingData nts incoming ex ! i) = JObj kvs"
  using assms by (simp add: applyExistingLocationsToIncomingData_def applyOne_override)

theorem override_precedence_witness:
  "0 < length [hospitalA] \<and> geometry ([hospitalA] ! 0) = JNull \<and>
   override \<lparr> edata = None, locations = [''1 Main St, X, Y, 1'' \<mapsto> point 3 4],
              override = [''A'' \<mapsto> point (-1) 2] \<rparr>
     (toStr noNumbers (fid ([hospitalA] ! 0))) = Some (point (-1) 2) \<and>
   locations \<lparr> edata = None, locations = [''1 Main St, X, Y, 1'' \<mapsto> point 3 4],
               override = [''A'' \<mapsto> point (-1) 2] \<rparr>
     (getLocationString noNumbers (properties ([hospitalA] ! 0))) = Some (point 3 4) \<and>
   geometry (applyExistingLocationsToIncomingData noNumbers [hospitalA]
      \<lparr> edata = None, locations = [''1 Main St, X, Y, 1'' \<mapsto> point 3 4],
         override = [''A'' \<mapsto> point (-1) 2] \<rparr> ! 0) = point (-1) 2"
  using override_precedence [of 0 "[hospitalA]"
      "\<lparr> edata = None, locations = [''1 Main St, X, Y, 1'' \<mapsto> point 3 4],
         override = [''A'' \<mapsto> point (-1) 2] \<rparr>"
      noNumbers
      "[(''type'', JPrim (Str ''Point'')), (''coordinates'', JArr [JPrim (Num (Fin (-1))), JPrim (Num (Fin 2))])]"
      "point 3 4"]
  by (simp add: sample_keys point_def pointGeometry_def)

section \<open>The geocoding loop: budget and no regression\<close>

lemma truthy_not_null: "truthy g \<Longrightarrow> g \<noteq> JNull"
  by auto







lemma geocodeLoop_budget:
  "geocodeLoop nts svc k c data = (res, c', e) \<Longrightarrow> c < geocodeRecordMax \<Longrightarrow>
   c' \<le> geocodeRecordMax \<and> c \<le> c' \<and>
   length (unresolved data) \<le> length (unresolved res) + (c' - c)"
proof (induction data arbitrary: c res c' e)
  case Nil
  then show ?case by (simp add: unresolved_def)
next
  case (Cons f rest)
  show ?case
  proof (cases "geometry f \<noteq> JNull")
    case True
    obtain rest' where r: "geocodeLoop nts svc k c rest = (rest', c', e)" and res: "res = f # rest'"
      using Cons.prems(1) True by (auto split: prod.splits)
    from Cons.IH [OF r Cons.prems(2)] res True show ?thesis
      by (auto simp: unresolved_def)
  next
    case null: False
    show ?thesis
    proof (cases "geocodeSingle svc (c + 1) (getLocationString nts (properties f)) k")
      case (Inl ex)
      with null Cons.prems show ?thesis by (auto simp: unresolved_def)
    next
      case (Inr geocode)
      show ?thesis
      proof (cases "applyGeocode geocode f")
        case (Inl err)
        with null Inr Cons.prems show ?thesis by (auto simp: unresolved_def)
      next
        case (Inr f')
        show ?thesis
        proof (cases "c + 1 \<ge> geocodeRecordMax")
          case True
          with null \<open>geocodeSingle _ _ _ _ = Inr geocode\<close> Inr Cons.prems show ?thesis
            by (auto simp: unresolved_def)
        next
          case False
          then have lt: "c + 1 < geocodeRecordMax" by simp
          obtain rest' where r: "geocodeLoop nts svc k (c + 1) rest = (rest', c', e)"
              and res: "res = f' # rest'"
            using Cons.prems(1) null \<open>geocodeSingle _ _ _ _ = Inr geocode\<close> Inr False
            by (auto split: prod.splits)
          from Cons.IH [OF r lt] res null show ?thesis
            by (auto simp: unresolved_def)
        qed
      qed
    qed
  qed
qed

text \<open>
  C2. \<open>count\<close> is raised once before each call of \<open>geocodeSingle\<close> and nowhere else,
  so its final value is the number of calls issued. When more features are unresolved
  after the merge than the budget \<open>geocodeRecordMax\<close> allows, at most that many calls
  are issued, and at least the excess is still unresolved when the loop is left.
\<close>

theorem budget_enforcement:
  assumes "geocodeIncomingData nts svc data apiKey = (res, calls, thrown)"
    and "geocodeRecordMax < length (unresolved data)"
  shows "calls \<le> geocodeRecordMax \<and>
         length (unresolved data) - geocodeRecordMax \<le> length (unresolved res)"
proof -
  have "0 < geocodeRecordMax" by (simp add: geocodeRecordMax_def)
  from geocodeLoop_budget [OF assms(1) [unfolded geocodeIncomingData_def] this]
  show ?thesis by auto
qed

lemma run101: "geocodeIncomingData noNumbers cannedService (replicate 101 hospitalA) ''k''
   = (replicate 100 (hospitalA\<lparr> geometry := point 5 6 \<rparr>) @ [hospitalA], 100, None)"
  by code_simp

theorem budget_enforcement_witness:
  "geocodeRecordMax < length (unresolved (replicate 101 hospitalA)) \<and>
   geocodeIncomingData noNumbers cannedService (replicate 101 hospitalA) ''k''
     = (replicate 100 (hospitalA\<lparr> geometry := point 5 6 \<rparr>) @ [hospitalA], 100, None) \<and>
   (100::nat) \<le> geocodeRecordMax \<and>
   length (unresolved (replicate 101 hospitalA)) - geocodeRecordMax
     \<le> length (unresolved (replicate 100 (hospitalA\<lparr> geometry := point 5 6 \<rparr>) @ [hospitalA]))"
  using budget_enforcement [OF run101] 
  by (simp add: run101 unresolved_def sample_keys geocodeRecordMax_def)




section \<open>The paginated download: termination\<close>




lemma steady_run: "downloadHospitalList steadyServer = Some (Inr [recordA, recordA])"
  unfolding downloadHospitalList_def
  by (subst downloadLoop.simps, simp add: steadyServer_def)+



section \<open>Loading the existing dataset\<close>

lemma loader_first_run:
  "loadExistingDataset nts \<lparr> all_geojson = Absent, location_override = ov \<rparr>
     = Inr \<lparr> edata = None, locations = Map.empty, override = Map.empty \<rparr>"
  by (simp add: loadExistingDataset_def)

text \<open>
  C5. With \<open>all.geojson\<close> present and readable and \<open>location-override.json\<close>
  absent, the loader reads the override file without looking whether it exists; the
  read error rejects the load and ends the run before anything is written.
\<close>

theorem loader_fails_without_override:
  "loadExistingDataset nts \<lparr> all_geojson = Parsed fs, location_override = Absent \<rparr> = Inl ENOENT \<and>
   execute nts srt server svc locate lower
     \<lparr> existing_at = \<lparr> all_geojson = Parsed fs, location_override = Absent \<rparr>, hereapikey = key \<rparr>
     = Some (Some ENOENT, [])"
  by (simp add: loadExistingDataset_def execute_def)

section \<open>Exceptions of a geocoding call\<close>

lemma geocodeLoop_thrown:
  "geocodeLoop nts svc k c data = (res, c', Some e) \<Longrightarrow>
   \<exists>f\<in>set data. \<exists>json.
     geocodeSingle svc c' (getLocationString nts (properties f)) k = Inr json \<and>
     applyGeocode json f = Inl e"
proof (induction data arbitrary: c res)
  case Nil
  then show ?case by simp
next
  case (Cons f rest)
  then show ?case
    by (fastforce split: if_splits prod.splits sum.splits)
qed

lemma geocodePassed_append:
  "geocodePassed nts svc k c pre = Some (pre', c') \<Longrightarrow>
   geocodeLoop nts svc k c (pre @ post)
     = (pre' @ fst (geocodeLoop nts svc k c' post), snd (geocodeLoop nts svc k c' post))"
proof (induction pre arbitrary: c pre')
  case Nil
  then show ?case by simp
next
  case (Cons f rest)
  show ?case
  proof (cases "geometry f \<noteq> JNull")
    case True
    with Cons.prems obtain rest' where
      r: "geocodePassed nts svc k c rest = Some (rest', c')" and p: "pre' = f # rest'"
      by (auto split: option.splits)
    from Cons.IH [OF r] True p show ?thesis by (simp split: prod.splits)
  next
    case False
    with Cons.prems obtain geocode f' rest' where
      g: "geocodeSingle svc (c + 1) (getLocationString nts (properties f)) k = Inr geocode" and
      a: "applyGeocode geocode f = Inr f'" and
      b: "\<not> c + 1 \<ge> geocodeRecordMax" and
      r: "geocodePassed nts svc k (c + 1) rest = Some (rest', c')" and p: "pre' = f' # rest'"
      by (auto split: option.splits sum.splits if_splits)
    from Cons.IH [OF r] False g a b p show ?thesis by (simp split: prod.splits)
  qed
qed

lemma geocodeLoop_stops:
  assumes "geocodePassed nts svc k c pre = Some (pre', c')"
    and "geometry f = JNull"
    and "geocodeSingle svc (c' + 1) (getLocationString nts (properties f)) k = Inl ex"
  shows "geocodeLoop nts svc k c pre = (pre', c', None)"
    and "geocodeLoop nts svc k c (pre @ f # rest) = (pre' @ f # rest, c' + 1, None)"
  using geocodePassed_append [OF assms(1), of "[]"] geocodePassed_append [OF assms(1), of "f # rest"]
    assms(2,3)
  by simp_all

text \<open>
  C6, as the code has it. Let the loop have gone over the features \<open>pre\<close>, leaving them
  as \<open>pre'\<close> with \<open>count\<close> at \<open>c'\<close>, and let the call for the next unresolved feature
  \<open>f\<close> raise an exception, whatever it is (no connection, a body that is not JSON, a
  rate limit). Then the loop ends there and no exception leaves it: the features before
  \<open>f\<close> are as the loop had left them, \<open>f\<close> and the features after it are untouched. In
  \<open>execute\<close> the run goes on from there and writes its outputs from this array. An
  exception leaves the loop only when the last call returned an answer and reading that
  answer failed.
\<close>

theorem geocode_exceptions_contained:
  "(geocodePassed nts svc k c pre = Some (pre', c') \<and> geometry f = JNull \<and>
      geocodeSingle svc (c' + 1) (getLocationString nts (properties f)) k = Inl ex
      \<longrightarrow> geocodeLoop nts svc k c pre = (pre', c', None) \<and>
          geocodeLoop nts svc k c (pre @ f # rest) = (pre' @ f # rest, c' + 1, None)) \<and>
   (loadExistingDataset nts (existing_at a) = Inr ex0 \<and>
      downloadHospitalList server = Some (Inr download) \<and>
      hereapikey a = Str k \<and>
      applyExistingLocationsToIncomingData nts
          (srt (map (\<lambda>r. fst (toGeoJsonFeature r)) download)) ex0 = pre @ f # rest \<and>
      geocodePassed nts svc k 0 pre = Some (pre', c') \<and> geometry f = JNull \<and>
      geocodeSingle svc (c' + 1) (getLocationString nts (properties f)) k = Inl ex
      \<longrightarrow> execute nts srt server svc locate lower a
            = Some (writeOutputs nts locate lower (pre' @ f # rest))) \<and>
   (geocodeLoop nts svc k c data = (res, n, Some e)
      \<longrightarrow> (\<exists>g\<in>set data. \<exists>json.
             geocodeSingle svc n (getLocationString nts (properties g)) k = Inr json \<and>
             applyGeocode json g = Inl e))"
proof (intro conjI impI)
  assume "geocodePassed nts svc k c pre = Some (pre', c') \<and> geometry f = JNull \<and>
      geocodeSingle svc (c' + 1) (getLocationString nts (properties f)) k = Inl ex"
  then have p: "geocodePassed nts svc k c pre = Some (pre', c')" and g: "geometry f = JNull"
    and s: "geocodeSingle svc (c' + 1) (getLocationString nts (properties f)) k = Inl ex"
    by simp_all
  show "geocodeLoop nts svc k c pre = (pre', c', None)"
    by (rule geocodeLoop_stops(1) [OF p g s])
  show "geocodeLoop nts svc k c (pre @ f # rest) = (pre' @ f # rest, c' + 1, None)"
    by (rule geocodeLoop_stops(2) [OF p g s])
next
  assume h: "loadExistingDataset nts (existing_at a) = Inr ex0 \<and>
      downloadHospitalList server = Some (Inr download) \<and>
      hereapikey a = Str k \<and>
      applyExistingLocationsToIncomingData nts
          (srt (map (\<lambda>r. fst (toGeoJsonFeature r)) download)) ex0 = pre @ f # rest \<and>
      geocodePassed nts svc k 0 pre = Some (pre', c') \<and> geometry f = JNull \<and>
      geocodeSingle svc (c' + 1) (getLocationString nts (properties f)) k = Inl ex"
  then have p: "geocodePassed nts svc k 0 pre = Some (pre', c')" and g: "geometry f = JNull"
    and s: "geocodeSingle svc (c' + 1) (getLocationString nts (properties f)) k = Inl ex"
    by simp_all
  have "geocodeLoop nts svc k 0 (pre @ f # rest) = (pre' @ f # rest, c' + 1, None)"
    by (rule geocodeLoop_stops(2) [OF p g s])
  with h show "execute nts srt server svc locate lower a
            = Some (writeOutputs nts locate lower (pre' @ f # rest))"
    by (simp add: execute_def reconcile_def geocodeIncomingData_def)
next
  assume "geocodeLoop nts svc k c data = (res, n, Some e)"
  then show "\<exists>g\<in>set data. \<exists>json.
             geocodeSingle svc n (getLocationString nts (properties g)) k = Inr json \<and>
             applyGeocode json g = Inl e"
    by (rule geocodeLoop_thrown)
qed

text \<open>
  C6 as stated fails: a call that ends in a network failure does not abort the run.
  The loop stops, nothing is thrown, and the run goes on to write its files.
\<close>

theorem network_failure_is_caught:
  "geocodeSingle downService 1 ''1 Main St, X, Y, 1'' ''k'' = Inl NetworkError \<and>
   geocodeIncomingData noNumbers downService [hospitalA, hospitalA] ''k''
     = ([hospitalA, hospitalA], 1, None) \<and>
   execute noNumbers id steadyServer downService plainFiles asciiLowerCase
       \<lparr> existing_at = firstRun, hereapikey = Str ''k'' \<rparr>
     = Some (writeOutputs noNumbers plainFiles asciiLowerCase [hospitalA, hospitalA]) \<and>
   fst (writeOutputs noNumbers plainFiles asciiLowerCase [hospitalA, hospitalA]) = None"
  by code_simp

lemma triple_run: "downloadHospitalList tripleServer = Some (Inr [recordA, recordA, recordA])"
  unfolding downloadHospitalList_def
  by (subst downloadLoop.simps, simp add: tripleServer_def)+

lemma once_sample:
  "geocodePassed noNumbers onceService ''k'' 0 [hospitalA]
     = Some ([hospitalA\<lparr> geometry := point 5 6 \<rparr>], 1)"
  "geocodeSingle onceService (1 + 1) (getLocationString noNumbers (properties hospitalA)) ''k''
     = Inl NetworkError"
  "geocodeLoop noNumbers nullService ''k'' 0 [hospitalA] = ([hospitalA], 1, Some TypeError)"
  "applyExistingLocationsToIncomingData noNumbers
     (id (map (\<lambda>r. fst (toGeoJsonFeature r)) [recordA, recordA, recordA])) noExisting
     = [hospitalA] @ hospitalA # [hospitalA]"
  by code_simp+

theorem geocode_exceptions_contained_witness:
  "geocodePassed noNumbers onceService ''k'' 0 [hospitalA]
     = Some ([hospitalA\<lparr> geometry := point 5 6 \<rparr>], 1) \<and>
   geometry hospitalA = JNull \<and>
   geocodeSingle onceService (1 + 1) (getLocationString noNumbers (properties hospitalA)) ''k''
     = Inl NetworkError \<and>
   geocodeLoop noNumbers onceService ''k'' 0 [hospitalA] = ([hospitalA\<lparr> geometry := point 5 6 \<rparr>], 1, None) \<and>
   geocodeLoop noNumbers onceService ''k'' 0 ([hospitalA] @ hospitalA # [hospitalA])
     = ([hospitalA\<lparr> geometry := point 5 6 \<rparr>] @ hospitalA # [hospitalA], 1 + 1, None) \<and>
   execute noNumbers id tripleServer onceService plainFiles asciiLowerCase
       \<lparr> existing_at = firstRun, hereapikey = Str ''k'' \<rparr>
     = Some (writeOutputs noNumbers plainFiles asciiLowerCase
               ([hospitalA\<lparr> geometry := point 5 6 \<rparr>] @ hospitalA # [hospitalA])) \<and>
   geocodeLoop noNumbers nullService ''k'' 0 [hospitalA] = ([hospitalA], 1, Some TypeError) \<and>
   (\<exists>g\<in>set [hospitalA]. \<exists>json.
      geocodeSingle nullService 1 (getLocationString noNumbers (properties g)) ''k'' = Inr json \<and>
      applyGeocode json g = Inl TypeError)"
proof -
  let ?a = "\<lparr> existing_at = firstRun, hereapikey = Str ''k'' \<rparr>"
  have l: "loadExistingDataset noNumbers (existing_at ?a) = Inr noExisting"
    by (simp add: firstRun_def noExisting_def loader_first_run)
  have k: "hereapikey ?a = Str ''k''" by simp
  note T = geocode_exceptions_contained [where nts = noNumbers and svc = onceService and k = "''k''"
      and c = 0 and pre = "[hospitalA]" and pre' = "[hospitalA\<lparr> geometry := point 5 6 \<rparr>]" and c' = 1
      and f = hospitalA and ex = NetworkError and rest = "[hospitalA]" and a = ?a
      and ?ex0.0 = noExisting and server = tripleServer
      and download = "[recordA, recordA, recordA]" and srt = id and locate = plainFiles
      and lower = asciiLowerCase]
  note U = geocode_exceptions_contained [where nts = noNumbers and svc = nullService and k = "''k''"
      and c = 0 and data = "[hospitalA]" and res = "[hospitalA]" and n = 1 and e = TypeError]
  from T once_sample(1,2) sample_keys(5)
  have one: "geocodeLoop noNumbers onceService ''k'' 0 [hospitalA]
        = ([hospitalA\<lparr> geometry := point 5 6 \<rparr>], 1, None)"
    "geocodeLoop noNumbers onceService ''k'' 0 ([hospitalA] @ hospitalA # [hospitalA])
        = ([hospitalA\<lparr> geometry := point 5 6 \<rparr>] @ hospitalA # [hospitalA], 1 + 1, None)"
    by blast+
  from T l triple_run k once_sample(4) once_sample(1,2) sample_keys(5)
  have two: "execute noNumbers id tripleServer onceService plainFiles asciiLowerCase ?a
     = Some (writeOutputs noNumbers plainFiles asciiLowerCase
               ([hospitalA\<lparr> geometry := point 5 6 \<rparr>] @ hospitalA # [hospitalA]))"
    by blast
  from U once_sample(3)
  have three: "\<exists>g\<in>set [hospitalA]. \<exists>json.
      geocodeSingle nullService 1 (getLocationString noNumbers (properties g)) ''k'' = Inr json \<and>
      applyGeocode json g = Inl TypeError"
    by blast
  from once_sample(1) sample_keys(5) once_sample(2) one two once_sample(3) three
  show ?thesis by (intro conjI)
qed

section \<open>The normalizers and their argument\<close>

lemma prune_step:
  assumes "distinct (map fst acc)"
  shows "(if field acc k = Null \<or> field acc k = Str [] then AList.delete k acc else acc)
         = filter (\<lambda>(k', v). k' \<noteq> k \<or> (v \<noteq> Null \<and> v \<noteq> Str [])) acc"
proof (cases "map_of acc k")
  case None
  then have "k \<notin> fst ` set acc" by (simp add: map_of_eq_None_iff)
  then have "filter (\<lambda>(k', v). k' \<noteq> k \<or> (v \<noteq> Null \<and> v \<noteq> Str [])) acc = acc"
    by (force simp: filter_id_conv)
  with None show ?thesis by (simp add: field_def)
next
  case (Some v)
  have only: "v' = v" if "(k, v') \<in> set acc" for v'
    using assms Some that by simp
  show ?thesis
  proof (cases "v = Null \<or> v = Str []")
    case True
    have "AList.delete k acc = filter (\<lambda>(k', v). k' \<noteq> k \<or> (v \<noteq> Null \<and> v \<noteq> Str [])) acc"
      unfolding AList.delete_eq using only True by (intro filter_cong) auto
    with True Some show ?thesis by (auto simp: field_def)
  next
    case False
    have "filter (\<lambda>(k', v). k' \<noteq> k \<or> (v \<noteq> Null \<and> v \<noteq> Str [])) acc = acc"
      unfolding filter_id_conv using only False by auto
    with False Some show ?thesis by (auto simp: field_def)
  qed
qed

lemma prune_fold:
  "distinct (map fst acc) \<Longrightarrow>
   fold (\<lambda>key acc. if field acc key = Null \<or> field acc key = Str [] then AList.delete key acc else acc) ks acc
   = filter (\<lambda>(k, v). k \<notin> set ks \<or> (v \<noteq> Null \<and> v \<noteq> Str [])) acc"
proof (induction ks arbitrary: acc)
  case Nil
  then show ?case by simp
next
  case (Cons k ks)
  let ?acc' = "filter (\<lambda>(k', v). k' \<noteq> k \<or> (v \<noteq> Null \<and> v \<noteq> Str [])) acc"
  have d: "distinct (map fst ?acc')"
    using Cons.prems by (simp add: distinct_map_filter)
  show ?case
    using Cons.IH [OF d] prune_step [OF Cons.prems, of k]
    by (auto intro: filter_cong)
qed

lemma pruneEmpty_filter:
  "distinct (map fst r) \<Longrightarrow> pruneEmpty r = filter (\<lambda>(k, v). v \<noteq> Null \<and> v \<noteq> Str []) r"
proof -
  assume d: "distinct (map fst r)"
  have "filter (\<lambda>(k, v). k \<notin> set (map fst r) \<or> (v \<noteq> Null \<and> v \<noteq> Str [])) r
        = filter (\<lambda>(k, v). v \<noteq> Null \<and> v \<noteq> Str []) r"
    by (rule filter_cong) force+
  with prune_fold [OF d, of "map fst r"] show ?thesis
    by (simp add: pruneEmpty_def)
qed

text \<open>
  C9, as the code has it. Each normalizer is a function of the record alone (the
  airports one also of the engine's number parser), so equal records give equal
  features. The hospital and the ports normalizer leave the record as it was. The
  airports normalizer deletes from the record it is given the keys \<open>id\<close>,
  \<open>latitude_deg\<close> and \<open>longitude_deg\<close> and every key holding \<open>null\<close> or the empty
  string, and the feature's properties are that same pruned record.
\<close>

theorem normalizer_frame:
  "snd (toGeoJsonFeature r) = r \<and>
   (toGeoJsonFeature_ports port = Inr (f, port') \<longrightarrow> port' = port) \<and>
   (distinct (map fst a) \<longrightarrow>
      snd (toGeoJsonFeature_airports pf a)
        = filter (\<lambda>(k, v). k \<notin> {''id'', ''latitude_deg'', ''longitude_deg''} \<and> v \<noteq> Null \<and> v \<noteq> Str []) a \<and>
      properties (fst (toGeoJsonFeature_airports pf a)) = snd (toGeoJsonFeature_airports pf a))"
proof -
  have "snd (toGeoJsonFeature r) = r" by (simp add: toGeoJsonFeature_def)
  moreover have "toGeoJsonFeature_ports port = Inr (f, port') \<longrightarrow> port' = port"
    by (auto simp: toGeoJsonFeature_ports_def split: prim.splits)
  moreover have "snd (toGeoJsonFeature_airports pf a)
        = filter (\<lambda>(k, v). k \<notin> {''id'', ''latitude_deg'', ''longitude_deg''} \<and> v \<noteq> Null \<and> v \<noteq> Str []) a"
    if d: "distinct (map fst a)"
  proof -
    have "distinct (map fst (AList.delete ''longitude_deg'' (AList.delete ''latitude_deg'' (AList.delete ''id'' a))))"
      using d by (simp add: distinct_delete)
    from pruneEmpty_filter [OF this] show ?thesis
      by (auto simp: toGeoJsonFeature_airports_def Let_def AList.delete_eq intro: filter_cong)
  qed
  moreover have "properties (fst (toGeoJsonFeature_airports pf a)) = snd (toGeoJsonFeature_airports pf a)"
    by (simp add: toGeoJsonFeature_airports_def Let_def)
  ultimately show ?thesis by blast
qed

lemma port_sample:
  "toGeoJsonFeature_ports portRecord = Inr (portFeature, portRecord)"
  by code_simp

theorem normalizer_frame_witness:
  "toGeoJsonFeature_ports portRecord = Inr (portFeature, portRecord) \<and>
   distinct (map fst airportRecord) \<and>
   snd (toGeoJsonFeature_airports sampleParse airportRecord)
     = filter (\<lambda>(k, v). k \<notin> {''id'', ''latitude_deg'', ''longitude_deg''} \<and> v \<noteq> Null \<and> v \<noteq> Str [])
         airportRecord \<and>
   properties (fst (toGeoJsonFeature_airports sampleParse airportRecord))
     = snd (toGeoJsonFeature_airports sampleParse airportRecord)"
proof -
  have d: "distinct (map fst airportRecord)" by (simp add: airportRecord_def)
  from normalizer_frame [of recordA portRecord portFeature portRecord airportRecord sampleParse] port_sample d
  show ?thesis by blast
qed

text \<open>
  C9 as stated fails for airports: the call changes its argument, and a second call on
  the same object no longer finds the identifier.
\<close>

theorem airports_normalizer_mutates:
  "snd (toGeoJsonFeature_airports sampleParse airportRecord) = [(''type'', Str ''heliport'')] \<and>
   snd (toGeoJsonFeature_airports sampleParse airportRecord) \<noteq> airportRecord \<and>
   fid (fst (toGeoJsonFeature_airports sampleParse airportRecord)) = Str ''6523'' \<and>
   fid (fst (toGeoJsonFeature_airports sampleParse
               (snd (toGeoJsonFeature_airports sampleParse airportRecord)))) = Undefined"
  by code_simp


section \<open>Coordinate rounding\<close>

lemma roundEven_half: "\<bar>of_int (roundEven t) - t\<bar> \<le> 1 / 2"
  unfolding roundEven_def by (auto simp: abs_if) linarith+

lemma binade_bounds:
  assumes "r \<noteq> 0"
  shows "2 powi (binade r) \<le> \<bar>r\<bar>" and "\<bar>r\<bar> < 2 powi (binade r + 1)"
proof -
  obtain a b where q: "quotient_of \<bar>r\<bar> = (a, b)" by (cases "quotient_of \<bar>r\<bar>")
  then have b: "0 < b" by (rule quotient_of_denom_pos)
  from q have r: "\<bar>r\<bar> = of_int a / of_int b" by (rule quotient_of_div)
  from assms have "0 < \<bar>r\<bar>" by simp
  with r b have a: "0 < a" by (simp add: zero_less_divide_iff)
  from bitlen_bounds [OF a] have a1: "2 ^ nat (bitlen a - 1) \<le> a" and a2: "a < 2 ^ nat (bitlen a)"
    by simp_all
  from bitlen_bounds [OF b] have b1: "2 ^ nat (bitlen b - 1) \<le> b" and b2: "b < 2 ^ nat (bitlen b)"
    by simp_all
  have la: "1 \<le> bitlen a" using a by (simp add: bitlen_def floorlog_def)
  have lb: "1 \<le> bitlen b" using b by (simp add: bitlen_def floorlog_def)
  have pa: "(2::rat) powi (bitlen a - 1) = 2 ^ nat (bitlen a - 1)"
    using la by (simp add: power_int_def)
  have pa': "(2::rat) powi (bitlen a) = 2 ^ nat (bitlen a)"
    using la by (simp add: power_int_def)
  have pb: "(2::rat) powi (bitlen b) = 2 ^ nat (bitlen b)"
    using lb by (simp add: power_int_def)
  have pb': "(2::rat) powi (bitlen b - 1) = 2 ^ nat (bitlen b - 1)"
    using lb by (simp add: power_int_def)
  have ra1: "(2::rat) ^ nat (bitlen a - 1) \<le> of_int a"
    using a1 by (metis of_int_le_iff of_int_numeral of_int_power)
  have ra2: "of_int a < (2::rat) ^ nat (bitlen a)"
    using a2 by (metis of_int_less_iff of_int_numeral of_int_power)
  have rb1: "(2::rat) ^ nat (bitlen b - 1) \<le> of_int b"
    using b1 by (metis of_int_le_iff of_int_numeral of_int_power)
  have rb2: "of_int b < (2::rat) ^ nat (bitlen b)"
    using b2 by (metis of_int_less_iff of_int_numeral of_int_power)
  have low: "(2::rat) powi (bitlen a - bitlen b - 1) \<le> \<bar>r\<bar>"
  proof -
    have "(2::rat) powi (bitlen a - bitlen b - 1) = 2 powi (bitlen a - 1) / 2 powi (bitlen b)"
      by (simp add: power_int_diff [symmetric] algebra_simps)
    also have "\<dots> \<le> of_int a / of_int b"
      unfolding pa pb using ra1 rb2 b a by (intro frac_le) simp_all
    finally show ?thesis unfolding r .
  qed
  have high: "\<bar>r\<bar> < (2::rat) powi (bitlen a - bitlen b + 1)"
  proof -
    have "of_int a / of_int b < (2::rat) powi (bitlen a) / 2 powi (bitlen b - 1)"
      unfolding pa' pb' using ra2 rb1 b a by (intro frac_less) simp_all
    also have "\<dots> = (2::rat) powi (bitlen a - bitlen b + 1)"
      by (simp add: power_int_diff [symmetric] algebra_simps)
    finally show ?thesis unfolding r .
  qed
  show "2 powi (binade r) \<le> \<bar>r\<bar>"
    using low by (simp add: binade_def q)
  show "\<bar>r\<bar> < 2 powi (binade r + 1)"
    using high by (auto simp: binade_def q not_le)
qed

lemma nearestDouble_accurate: "\<bar>nearestDouble r - r\<bar> \<le> \<bar>r\<bar> / 2 ^ 53"
proof (cases "r = 0")
  case True
  then show ?thesis by (simp add: nearestDouble_def)
next
  case False
  define u :: rat where "u = 2 powi (binade r - 52)"
  have u: "0 < u" by (simp add: u_def)
  have "\<bar>of_int (roundEven (r / u)) - r / u\<bar> \<le> 1 / 2" by (rule roundEven_half)
  then have m1: "\<bar>of_int (roundEven (r / u)) - r / u\<bar> * u \<le> 1 / 2 * u"
    using u by (intro mult_right_mono) simp_all
  have m2: "\<bar>of_int (roundEven (r / u)) - r / u\<bar> * u = \<bar>of_int (roundEven (r / u)) * u - r\<bar>"
  proof -
    have "\<bar>of_int (roundEven (r / u)) - r / u\<bar> * u = \<bar>(of_int (roundEven (r / u)) - r / u) * u\<bar>"
      using u by (simp add: abs_mult)
    also have "(of_int (roundEven (r / u)) - r / u) * u = of_int (roundEven (r / u)) * u - r"
      using u by (simp add: algebra_simps)
    finally show ?thesis .
  qed
  have nd: "nearestDouble r = of_int (roundEven (r / u)) * u"
    using False by (simp add: nearestDouble_def u_def)
  from m1 [unfolded m2] have d: "\<bar>nearestDouble r - r\<bar> \<le> u / 2"
    unfolding nd by simp
  have "u = 2 powi (binade r) / 2 ^ 52"
    unfolding u_def by (simp add: power_int_diff)
  then have "u / 2 = 2 powi (binade r) / 2 ^ 53" by simp
  also have "\<dots> \<le> \<bar>r\<bar> / 2 ^ 53"
    using binade_bounds(1) [OF False] by (intro divide_right_mono) simp_all
  finally show ?thesis using d by simp
qed

lemma decimal_nearest:
  fixes c :: rat
  shows "\<bar>c - of_int (round (c * 10 ^ d)) / 10 ^ d\<bar> \<le> \<bar>c - of_int m / 10 ^ d\<bar>"
proof -
  have p: "(0::rat) < 10 ^ d" by simp
  have "\<bar>c * 10 ^ d - of_int (round (c * 10 ^ d))\<bar> \<le> \<bar>c * 10 ^ d - of_int m\<bar>"
    by (rule round_diff_minimal)
  then have "\<bar>c * 10 ^ d - of_int (round (c * 10 ^ d))\<bar> / 10 ^ d \<le> \<bar>c * 10 ^ d - of_int m\<bar> / 10 ^ d"
    using p by (simp add: divide_right_mono)
  moreover have "\<bar>c * 10 ^ d - of_int k\<bar> / 10 ^ d = \<bar>c - of_int k / 10 ^ d\<bar>" for k :: int
  proof -
    have "c - of_int k / 10 ^ d = (c * 10 ^ d - of_int k) / 10 ^ d" using p by (simp add: field_simps)
    then show ?thesis using p by (simp add: abs_divide)
  qed
  ultimately show ?thesis by simp
qed

lemma decimal_half:
  fixes c :: rat
  shows "\<bar>c - of_int (round (c * 10 ^ d)) / 10 ^ d\<bar> \<le> 1 / (2 * 10 ^ d)"
proof -
  have p: "(0::rat) < 10 ^ d" by simp
  have h: "\<bar>c * 10 ^ d - of_int (round (c * 10 ^ d))\<bar> \<le> 1 / 2"
    using of_int_round_abs_le [of "c * 10 ^ d"] by (simp add: abs_minus_commute)
  have "\<bar>c * 10 ^ d - of_int (round (c * 10 ^ d))\<bar> / 10 ^ d \<le> (1 / 2) / 10 ^ d"
    by (rule divide_right_mono [OF h]) simp
  moreover have "c - of_int (round (c * 10 ^ d)) / 10 ^ d = (c * 10 ^ d - of_int (round (c * 10 ^ d))) / 10 ^ d"
    using p by (simp add: field_simps)
  ultimately show ?thesis using p by (simp add: abs_divide)
qed

lemma roundFixed_rounding: "roundingOf d x (JPrim (Num (roundFixed d (Fin x))))"
proof (cases "\<bar>x\<bar> \<ge> 10 ^ 21")
  case True
  have "1 / (2 * 10 ^ d) \<le> (1 / 2 :: rat)"
    by (simp add: field_simps)
  also have "\<dots> \<le> 10 ^ 21 / 2 ^ 52" by simp
  also have "\<dots> \<le> \<bar>x\<bar> / 2 ^ 52" using True by (simp add: divide_right_mono)
  finally have "1 / (2 * 10 ^ d) \<le> \<bar>x\<bar> / 2 ^ 52" .
  with decimal_half [of x d] have "\<bar>x - of_int (round (x * 10 ^ d)) / 10 ^ d\<bar> \<le> \<bar>x\<bar> / 2 ^ 52"
    by simp
  then show ?thesis using True by (simp add: roundingOf_def roundedTo_def)
next
  case False
  define n where "n = round (\<bar>x\<bar> * 10 ^ d)"
  define m where "m = (if x < 0 then - n else n)"
  define r :: rat where "r = of_int m / 10 ^ d"
  have p: "(0::rat) < 10 ^ d" by simp
  have n0: "0 \<le> n" unfolding n_def by (simp add: round_def)
  have fl: "\<lfloor>\<bar>x\<bar> * 10 ^ d + 1 / 2\<rfloor> = n" by (simp add: n_def round_def)
  have sg: "sgn x * of_int n / 10 ^ d = r"
  proof (cases "x = 0")
    case True
    then show ?thesis by (simp add: r_def m_def n_def)
  next
    case False
    then show ?thesis by (simp add: r_def m_def sgn_if)
  qed
  define dbl where "dbl = nearestDouble"
  have val: "roundFixed d (Fin x) = Fin (dbl r)"
    using False by (simp add: fl sg dbl_def)
  have a: "\<bar>dbl r - r\<bar> \<le> \<bar>r\<bar> / 2 ^ 53"
    unfolding dbl_def by (rule nearestDouble_accurate)
  have "\<bar>r\<bar> / 2 ^ 53 \<le> \<bar>r\<bar> / 2" by (rule divide_left_mono) simp_all
  with a have "\<bar>dbl r - r\<bar> \<le> \<bar>r\<bar> / 2" by (rule order_trans)
  moreover have "\<bar>r\<bar> \<le> \<bar>dbl r\<bar> + \<bar>dbl r - r\<bar>" by simp
  ultimately have "\<bar>r\<bar> \<le> 2 * \<bar>dbl r\<bar>" by linarith
  then have "\<bar>r\<bar> / 2 ^ 53 \<le> (2 * \<bar>dbl r\<bar>) / 2 ^ 53" by (rule divide_right_mono) simp
  also have "\<dots> = \<bar>dbl r\<bar> / 2 ^ 52" by simp
  finally have "\<bar>r\<bar> / 2 ^ 53 \<le> \<bar>dbl r\<bar> / 2 ^ 52" .
  with a have b: "\<bar>dbl r - r\<bar> \<le> \<bar>dbl r\<bar> / 2 ^ 52" by (rule order_trans)
  have "\<bar>dbl r - of_int (round (dbl r * 10 ^ d)) / 10 ^ d\<bar> \<le> \<bar>dbl r - r\<bar>"
    unfolding r_def by (rule decimal_nearest)
  with b have nd: "\<bar>dbl r - of_int (round (dbl r * 10 ^ d)) / 10 ^ d\<bar> \<le> \<bar>dbl r\<bar> / 2 ^ 52"
    by simp
  have "\<bar>r - x\<bar> = \<bar>\<bar>x\<bar> - of_int n / 10 ^ d\<bar>"
    by (simp add: r_def m_def abs_if)
  also have "\<dots> \<le> 1 / (2 * 10 ^ d)" unfolding n_def by (rule decimal_half)
  finally have rx: "\<bar>r - x\<bar> \<le> 1 / (2 * 10 ^ d)" .
  have "\<bar>dbl r - x\<bar> \<le> \<bar>dbl r - r\<bar> + \<bar>r - x\<bar>" by simp
  with b rx have "\<bar>dbl r - x\<bar> \<le> 1 / (2 * 10 ^ d) + \<bar>dbl r\<bar> / 2 ^ 52" by simp
  with val nd show ?thesis by (simp add: roundingOf_def roundedTo_def)
qed

lemma roundingOf_rounded: "roundingOf d x v \<Longrightarrow> roundedTo d v"
  by (auto simp: roundingOf_def split: jsval.splits prim.splits jsnum.splits)

text \<open>
  C8, as the code has it. A point made by the ports or the airports normalizer from
  finite source coordinates has two coordinates, longitude then latitude, each the
  rounding to six decimals of its source coordinate (which reads: a double rounded to six
  decimals, within half a unit of the sixth decimal of the source). A point made by the
  geocoding loop holds the \<open>lng\<close> and \<open>lat\<close> of the first candidate's position exactly
  as the service sent them.
\<close>

theorem coordinate_rounding:
  "(toGeoJsonFeature_ports port = Inr (f, port') \<and>
      field port ''xcoord'' = Num (Fin x) \<and> field port ''ycoord'' = Num (Fin y)
      \<longrightarrow> list_all2 (roundingOf accuracy) [x, y] (coordinates (geometry f)) \<and>
          list_all (roundedTo accuracy) (coordinates (geometry f))) \<and>
   (parseFloat pf (field a ''longitude_deg'') = Fin x' \<and>
      parseFloat pf (field a ''latitude_deg'') = Fin y'
      \<longrightarrow> list_all2 (roundingOf accuracy) [x', y']
            (coordinates (geometry (fst (toGeoJsonFeature_airports pf a)))) \<and>
          list_all (roundedTo accuracy)
            (coordinates (geometry (fst (toGeoJsonFeature_airports pf a))))) \<and>
   (getField geocode ''items'' = Inr (JArr (first # others)) \<and>
      getField first ''position'' = Inr position \<and>
      getField position ''lng'' = Inr lng \<and> getField position ''lat'' = Inr lat
      \<longrightarrow> applyGeocode geocode h = Inr (h\<lparr> geometry := pointGeometry lng lat \<rparr>) \<and>
          coordinates (pointGeometry lng lat) = [lng, lat])"
proof -
  have ports: "list_all2 (roundingOf accuracy) [x, y] (coordinates (geometry f)) \<and>
          list_all (roundedTo accuracy) (coordinates (geometry f))"
    if "toGeoJsonFeature_ports port = Inr (f, port')"
      "field port ''xcoord'' = Num (Fin x)" "field port ''ycoord'' = Num (Fin y)"
  proof -
    from that have "geometry f = pointGeometry (JPrim (Num (roundFixed accuracy (Fin x))))
        (JPrim (Num (roundFixed accuracy (Fin y))))"
      by (auto simp: toGeoJsonFeature_ports_def split: prim.splits)
    with roundFixed_rounding [of accuracy x] roundFixed_rounding [of accuracy y]
    show ?thesis by (simp add: pointGeometry_def roundingOf_rounded)
  qed
  have airports: "list_all2 (roundingOf accuracy) [x', y']
            (coordinates (geometry (fst (toGeoJsonFeature_airports pf a)))) \<and>
          list_all (roundedTo accuracy)
            (coordinates (geometry (fst (toGeoJsonFeature_airports pf a))))"
    if "parseFloat pf (field a ''longitude_deg'') = Fin x'"
      "parseFloat pf (field a ''latitude_deg'') = Fin y'"
  proof -
    from that have "geometry (fst (toGeoJsonFeature_airports pf a)) =
        pointGeometry (JPrim (Num (roundFixed accuracy (Fin x'))))
          (JPrim (Num (roundFixed accuracy (Fin y'))))"
      by (simp add: toGeoJsonFeature_airports_def Let_def)
    with roundFixed_rounding [of accuracy x'] roundFixed_rounding [of accuracy y']
    show ?thesis by (simp add: pointGeometry_def roundingOf_rounded)
  qed
  have live: "applyGeocode geocode h = Inr (h\<lparr> geometry := pointGeometry lng lat \<rparr>) \<and>
          coordinates (pointGeometry lng lat) = [lng, lat]"
    if "getField geocode ''items'' = Inr (JArr (first # others))"
      "getField first ''position'' = Inr position"
      "getField position ''lng'' = Inr lng" "getField position ''lat'' = Inr lat"
    using that by (simp add: applyGeocode_def pointGeometry_def)
  from ports airports live show ?thesis by blast
qed

text \<open>
  C8 as stated fails for the geocoding loop: a latitude with seven decimals,
  \<open>40.0703125\<close>, is stored as it came and is not rounded to six.
\<close>

theorem live_geocode_not_rounded:
  "geocodeIncomingData noNumbers preciseService [hospitalA] ''k''
     = ([hospitalA\<lparr> geometry := point (- 297 / 4) (5129 / 128) \<rparr>], 1, None) \<and>
   coordinates (point (- 297 / 4) (5129 / 128))
     = [JPrim (Num (Fin (- 297 / 4))), JPrim (Num (Fin (5129 / 128)))] \<and>
   \<not> roundedTo 6 (JPrim (Num (Fin (5129 / 128))))"
  by code_simp

theorem coordinate_rounding_witness:
  "toGeoJsonFeature_ports portRecord = Inr (portFeature, portRecord) \<and>
   field portRecord ''xcoord'' = Num (Fin (- 297 / 4)) \<and>
   field portRecord ''ycoord'' = Num (Fin (5129 / 128)) \<and>
   list_all2 (roundingOf accuracy) [- 297 / 4, 5129 / 128] (coordinates (geometry portFeature)) \<and>
   parseFloat sampleParse (field airportRecord ''longitude_deg'') = Fin (- 297 / 4) \<and>
   parseFloat sampleParse (field airportRecord ''latitude_deg'') = Fin (5129 / 128) \<and>
   list_all2 (roundingOf accuracy) [- 297 / 4, 5129 / 128]
     (coordinates (geometry (fst (toGeoJsonFeature_airports sampleParse airportRecord)))) \<and>
   getField preciseAnswer ''items'' = Inr (JArr (JObj [(''position'', precisePosition)] # [])) \<and>
   getField (JObj [(''position'', precisePosition)]) ''position'' = Inr precisePosition \<and>
   getField precisePosition ''lng'' = Inr (JPrim (Num (Fin (- 297 / 4)))) \<and>
   getField precisePosition ''lat'' = Inr (JPrim (Num (Fin (5129 / 128)))) \<and>
   applyGeocode preciseAnswer hospitalA
     = Inr (hospitalA\<lparr> geometry := pointGeometry (JPrim (Num (Fin (- 297 / 4))))
                                      (JPrim (Num (Fin (5129 / 128)))) \<rparr>)"
proof -
  have p: "field portRecord ''xcoord'' = Num (Fin (- 297 / 4))"
    "field portRecord ''ycoord'' = Num (Fin (5129 / 128))"
    by (simp_all add: portRecord_def field_def)
  have a: "parseFloat sampleParse (field airportRecord ''longitude_deg'') = Fin (- 297 / 4)"
    "parseFloat sampleParse (field airportRecord ''latitude_deg'') = Fin (5129 / 128)"
    by (simp_all add: airportRecord_def field_def sampleParse_def)
  have g: "getField preciseAnswer ''items'' = Inr (JArr (JObj [(''position'', precisePosition)] # []))"
    "getField (JObj [(''position'', precisePosition)]) ''position'' = Inr precisePosition"
    "getField precisePosition ''lng'' = Inr (JPrim (Num (Fin (- 297 / 4))))"
    "getField precisePosition ''lat'' = Inr (JPrim (Num (Fin (5129 / 128))))"
    by (simp_all add: preciseAnswer_def precisePosition_def getProperty_def)
  from coordinate_rounding [where port = portRecord and f = portFeature
      and port' = portRecord and x = "- 297 / 4" and y = "5129 / 128" and pf = sampleParse
      and a = airportRecord and x' = "- 297 / 4" and y' = "5129 / 128" and geocode = preciseAnswer
      and first = "JObj [(''position'', precisePosition)]" and others = "[]"
      and position = precisePosition and lng = "JPrim (Num (Fin (- 297 / 4)))"
      and lat = "JPrim (Num (Fin (5129 / 128)))" and h = hospitalA]
    port_sample p a g
  show ?thesis by blast
qed

section \<open>Grouping completeness\<close>

lemma update_fresh: "k \<notin> fst ` set al \<Longrightarrow> AList.update k v al = al @ [(k, v)]"
  by (induction al) auto

lemma groupByLoop_keys:
  "groupByLoop sel items result = Inr groups \<Longrightarrow> distinct (map fst result) \<Longrightarrow>
   distinct (map fst groups) \<and> fst ` set groups = fst ` set result \<union> sel ` set items"
proof (induction items arbitrary: result)
  case Nil
  then show ?case by simp
next
  case (Cons item rest)
  show ?case
  proof (cases "map_of result (sel item)")
    case None
    then have fresh: "sel item \<notin> fst ` set result" by (simp add: map_of_eq_None_iff)
    from None Cons.prems have "groupByLoop sel rest (result @ [(sel item, [item])]) = Inr groups"
      by (simp split: if_splits)
    from Cons.IH [OF this] fresh Cons.prems(2) show ?thesis by auto
  next
    case (Some grp)
    then have "(sel item, grp) \<in> set result" by (rule map_of_SomeD)
    then have old: "sel item \<in> fst ` set result" by force
    from Some Cons.prems have
      step: "groupByLoop sel rest (AList.update (sel item) (grp @ [item]) result) = Inr groups"
      by simp
    have d: "distinct (map fst (AList.update (sel item) (grp @ [item]) result))"
      using Cons.prems(2) by (rule distinct_update)
    have k: "fst ` set (AList.update (sel item) (grp @ [item]) result) = fst ` set result"
      using old by (simp add: dom_update insert_absorb)
    from Cons.IH [OF step d] k old show ?thesis by auto
  qed
qed

lemma groupByLoop_map_of:
  "groupByLoop sel items result = Inr groups \<Longrightarrow>
   map_of groups k =
     (case map_of result k of
        Some g \<Rightarrow> Some (g @ filter (\<lambda>x. sel x = k) items)
      | None \<Rightarrow> if k \<in> sel ` set items then Some (filter (\<lambda>x. sel x = k) items) else None)"
proof (induction items arbitrary: result)
  case Nil
  then show ?case by (simp split: option.splits)
next
  case (Cons item rest)
  show ?case
  proof (cases "map_of result (sel item)")
    case None
    with Cons.prems have step: "groupByLoop sel rest (result @ [(sel item, [item])]) = Inr groups"
      by (simp split: if_splits)
    have m: "map_of (result @ [(sel item, [item])]) k =
        (case map_of result k of
           Some g \<Rightarrow> Some g
         | None \<Rightarrow> if k = sel item then Some [item] else None)"
      by (simp add: map_add_def split: option.splits)
    show ?thesis unfolding Cons.IH [OF step] m using None by (auto split: option.splits)
  next
    case (Some grp)
    with Cons.prems have
      step: "groupByLoop sel rest (AList.update (sel item) (grp @ [item]) result) = Inr groups"
      by simp
    have m: "map_of (AList.update (sel item) (grp @ [item]) result) k =
        (if k = sel item then Some (grp @ [item]) else map_of result k)"
      by (simp add: update_conv')
    show ?thesis unfolding Cons.IH [OF step] m using Some by (auto split: option.splits)
  qed
qed

lemma ownEntries_mset: "mset (ownEntries kvs) = mset kvs"
proof -
  have "filter_mset (\<lambda>kv. arrayIndex (fst kv) = None) (mset kvs)
      = filter_mset (\<lambda>kv. \<not> arrayIndex (fst kv) \<noteq> None) (mset kvs)"
    by simp
  then show ?thesis
    unfolding ownEntries_def by (simp only: mset_append mset_sort mset_filter multiset_partition [symmetric])
qed

lemma ownEntries_set: "set (ownEntries kvs) = set kvs"
  using ownEntries_mset [of kvs] by (rule mset_eq_setD)

lemma ownEntries_distinct: "distinct (map fst kvs) \<Longrightarrow> distinct (map fst (ownEntries kvs))"
proof -
  have "mset (map fst (ownEntries kvs)) = mset (map fst kvs)"
    using ownEntries_mset [of kvs] by (metis mset_map)
  from mset_eq_imp_distinct_iff [OF this] show "distinct (map fst kvs) \<Longrightarrow> ?thesis" by simp
qed

lemma ownEntries_map_of: "distinct (map fst kvs) \<Longrightarrow> map_of (ownEntries kvs) = map_of kvs"
  using map_of_inject_set [of "ownEntries kvs" kvs] ownEntries_distinct [of kvs] ownEntries_set [of kvs]
  by simp

lemma stringValues_set:
  "set (stringValues p incoming) = {v. \<exists>s\<in>set incoming. field (properties s) p = Str v}"
  by (auto simp: stringValues_def split: prim.splits)

lemma stringValues_distinct: "distinct (stringValues p incoming)"
  by (simp add: stringValues_def)

lemma groupFeatures_groups:
  assumes g: "groupFeatures nts p incoming = Inr groups"
  shows "distinct (map fst groups)"
    and "fst ` set groups = set (stringValues p incoming)"
    and "map_of groups k =
           (if k \<in> set (stringValues p incoming)
            then Some (filter (\<lambda>s. field (properties s) p = Str k) incoming) else None)"
proof -
  let ?sel = "\<lambda>s. toStr nts (field (properties s) p)"
  let ?items = "filter (\<lambda>s. isString (field (properties s) p)) incoming"
  from g obtain result where loop: "groupByLoop ?sel ?items [] = Inr result"
    and groups: "groups = ownEntries result"
    by (auto simp: groupFeatures_def groupBy_def split: sum.splits)
  from groupByLoop_keys [OF loop] have d: "distinct (map fst result)"
    and keys: "fst ` set result = ?sel ` set ?items"
    by simp_all
  have e: "isString (field (properties s) p) \<and> ?sel s = v \<longleftrightarrow> field (properties s) p = Str v"
    for s v
    by (cases "field (properties s) p") (auto simp: isString_def)
  have vals: "?sel ` set ?items = set (stringValues p incoming)"
  proof (rule set_eqI)
    fix v
    have "v \<in> ?sel ` set ?items
        \<longleftrightarrow> (\<exists>s\<in>set incoming. isString (field (properties s) p) \<and> ?sel s = v)"
      by auto
    also have "\<dots> \<longleftrightarrow> (\<exists>s\<in>set incoming. field (properties s) p = Str v)"
      unfolding e ..
    finally show "v \<in> ?sel ` set ?items \<longleftrightarrow> v \<in> set (stringValues p incoming)"
      unfolding stringValues_set by simp
  qed
  from d show "distinct (map fst groups)" unfolding groups by (rule ownEntries_distinct)
  show "fst ` set groups = set (stringValues p incoming)"
    unfolding groups ownEntries_set keys vals ..
  have f: "filter (\<lambda>x. ?sel x = k) ?items = filter (\<lambda>s. field (properties s) p = Str k) incoming"
    unfolding filter_filter by (rule filter_cong) (auto simp: isString_def split: prim.splits)
  show "map_of groups k =
           (if k \<in> set (stringValues p incoming)
            then Some (filter (\<lambda>s. field (properties s) p = Str k) incoming) else None)"
    unfolding groups ownEntries_map_of [OF d] groupByLoop_map_of [OF loop, of k] vals f by simp
qed

lemma write_other:
  "writeObjectToFile locate path d fs0 = Inr fs \<Longrightarrow> locate path \<noteq> Inr n \<Longrightarrow>
   map_of fs n = map_of fs0 n"
  by (auto simp: writeObjectToFile_def update_conv' split: sum.splits)

lemma write_this:
  "writeObjectToFile locate path d fs0 = Inr fs \<Longrightarrow> locate path = Inr n \<Longrightarrow> map_of fs n = Some d"
  by (auto simp: writeObjectToFile_def update_conv' split: sum.splits)

lemma write_names:
  "writeObjectToFile locate path d fs0 = Inr fs \<Longrightarrow>
   Inr ` fst ` set fs = insert (locate path) (Inr ` fst ` set fs0)"
proof -
  assume "writeObjectToFile locate path d fs0 = Inr fs"
  then obtain n where n: "locate path = Inr n" and fs: "fs = AList.update n d fs0"
    by (auto simp: writeObjectToFile_def split: sum.splits)
  have "fst ` set fs = insert n (fst ` set fs0)" unfolding fs by (simp add: dom_update)
  then show ?thesis using n by simp
qed

lemma writeGroups_located:
  "writeGroups locate lower dir groups fs0 = Inr fs \<Longrightarrow> kg \<in> set groups \<Longrightarrow>
   \<exists>n. locate [dir, lower (fst kg) @ ''.geojson''] = Inr n"
proof (induction groups arbitrary: fs0)
  case Nil
  then show ?case by simp
next
  case (Cons a rest)
  then show ?case by (auto simp: writeObjectToFile_def split: sum.splits)
qed

lemma writeGroups_other:
  "writeGroups locate lower dir groups fs0 = Inr fs \<Longrightarrow>
   (\<forall>kg\<in>set groups. locate [dir, lower (fst kg) @ ''.geojson''] \<noteq> Inr n) \<Longrightarrow>
   map_of fs n = map_of fs0 n"
proof (induction groups arbitrary: fs0)
  case Nil
  then show ?case by simp
next
  case (Cons a rest)
  from Cons.prems(1) obtain fs' where
    w: "writeObjectToFile locate [dir, lower (fst a) @ ''.geojson''] (FeatureCollection (snd a)) fs0
          = Inr fs'"
    and r: "writeGroups locate lower dir rest fs' = Inr fs"
    by (auto split: sum.splits)
  from Cons.prems(2) have "map_of fs' n = map_of fs0 n" by (intro write_other [OF w]) simp
  moreover from Cons.prems(2) have "map_of fs n = map_of fs' n" by (intro Cons.IH [OF r]) simp
  ultimately show ?case by simp
qed

lemma writeGroups_written:
  "writeGroups locate lower dir groups fs0 = Inr fs \<Longrightarrow>
   distinct (map (\<lambda>kg. locate [dir, lower (fst kg) @ ''.geojson'']) groups) \<Longrightarrow>
   kg \<in> set groups \<Longrightarrow> locate [dir, lower (fst kg) @ ''.geojson''] = Inr n \<Longrightarrow>
   map_of fs n = Some (FeatureCollection (snd kg))"
proof (induction groups arbitrary: fs0)
  case Nil
  then show ?case by simp
next
  case (Cons a rest)
  from Cons.prems(1) obtain fs' where
    w: "writeObjectToFile locate [dir, lower (fst a) @ ''.geojson''] (FeatureCollection (snd a)) fs0
          = Inr fs'"
    and r: "writeGroups locate lower dir rest fs' = Inr fs"
    by (auto split: sum.splits)
  show ?case
  proof (cases "kg \<in> set rest")
    case True
    from Cons.prems(2) have "distinct (map (\<lambda>kg. locate [dir, lower (fst kg) @ ''.geojson'']) rest)"
      by simp
    from Cons.IH [OF r this True Cons.prems(4)] show ?thesis .
  next
    case False
    with Cons.prems(3) have kg: "kg = a" by simp
    from Cons.prems(2) Cons.prems(4)
    have "\<forall>x\<in>set rest. locate [dir, lower (fst x) @ ''.geojson''] \<noteq> Inr n"
      unfolding kg by (auto simp: image_iff)
    from writeGroups_other [OF r this] write_this [OF w] Cons.prems(4) show ?thesis
      unfolding kg by simp
  qed
qed

lemma writeGroups_names:
  "writeGroups locate lower dir groups fs0 = Inr fs \<Longrightarrow>
   Inr ` fst ` set fs
     = Inr ` fst ` set fs0 \<union> (\<lambda>kg. locate [dir, lower (fst kg) @ ''.geojson'']) ` set groups"
proof (induction groups arbitrary: fs0)
  case Nil
  then show ?case by simp
next
  case (Cons a rest)
  from Cons.prems(1) obtain fs' where
    w: "writeObjectToFile locate [dir, lower (fst a) @ ''.geojson''] (FeatureCollection (snd a)) fs0
          = Inr fs'"
    and r: "writeGroups locate lower dir rest fs' = Inr fs"
    by (auto split: sum.splits)
  show ?case unfolding Cons.IH [OF r] write_names [OF w] by auto
qed

lemma group_paths:
  assumes "fst ` set groups = set (stringValues p incoming)"
  shows "(\<lambda>kg. locate [p, lower (fst kg) @ ''.geojson'']) ` set groups
           = locate ` set (valuePaths lower p incoming)"
proof -
  have "(\<lambda>kg. locate [p, lower (fst kg) @ ''.geojson'']) ` set groups
      = (\<lambda>v. locate [p, lower v @ ''.geojson'']) ` fst ` set groups"
    by (simp add: image_image)
  also have "\<dots> = locate ` set (valuePaths lower p incoming)"
    unfolding assms by (simp add: valuePaths_def image_image)
  finally show ?thesis .
qed

lemma groupAndWrite_parts:
  "groupAndWrite nts locate lower dir p incoming fs0 = Inr (groups, fs) \<Longrightarrow>
   groupFeatures nts p incoming = Inr groups \<and> writeGroups locate lower dir groups fs0 = Inr fs"
  by (auto simp: groupAndWrite_def split: sum.splits)

lemma groupAndWrite_written:
  assumes gw: "groupAndWrite nts locate lower p p incoming fs0 = Inr (groups, fs)"
    and own: "distinct (map locate (valuePaths lower p incoming))"
    and v: "v \<in> set (stringValues p incoming)"
  shows "\<exists>n. locate [p, lower v @ ''.geojson''] = Inr n \<and>
             map_of fs n = Some (FeatureCollection (filter (\<lambda>s. field (properties s) p = Str v) incoming))"
proof -
  let ?h = "\<lambda>v. locate [p, lower v @ ''.geojson'']"
  from groupAndWrite_parts [OF gw] have g: "groupFeatures nts p incoming = Inr groups"
    and w: "writeGroups locate lower p groups fs0 = Inr fs"
    by simp_all
  note G = groupFeatures_groups [OF g]
  from G(3) [of v] v
  have "map_of groups v = Some (filter (\<lambda>s. field (properties s) p = Str v) incoming)"
    by simp
  then have kg: "(v, filter (\<lambda>s. field (properties s) p = Str v) incoming) \<in> set groups"
    by (rule map_of_SomeD)
  from writeGroups_located [OF w kg] obtain n where n: "?h v = Inr n" by auto
  from own have "distinct (map ?h (stringValues p incoming))"
    by (simp add: valuePaths_def comp_def)
  then have "inj_on ?h (set (stringValues p incoming))" by (simp add: distinct_map)
  then have inj: "inj_on ?h (set (map fst groups))" using G(2) by simp
  have "distinct (map ?h (map fst groups))"
    by (intro distinct_map [THEN iffD2] conjI G(1) inj)
  then have d: "distinct (map (\<lambda>kg. locate [p, lower (fst kg) @ ''.geojson'']) groups)"
    by (simp add: comp_def)
  from writeGroups_written [OF w d kg] n
  have "map_of fs n = Some (FeatureCollection (filter (\<lambda>s. field (properties s) p = Str v) incoming))"
    by simp
  with n show ?thesis by blast
qed

lemma groupAndWrite_other:
  assumes gw: "groupAndWrite nts locate lower q q incoming fs0 = Inr (groups, fs)"
    and other: "\<forall>b\<in>set (valuePaths lower q incoming). locate b \<noteq> Inr n"
  shows "map_of fs n = map_of fs0 n"
proof -
  from groupAndWrite_parts [OF gw] have g: "groupFeatures nts q incoming = Inr groups"
    and w: "writeGroups locate lower q groups fs0 = Inr fs"
    by simp_all
  have "Inr n \<notin> locate ` set (valuePaths lower q incoming)" using other by force
  then have "Inr n \<notin> (\<lambda>kg. locate [q, lower (fst kg) @ ''.geojson'']) ` set groups"
    unfolding group_paths [OF groupFeatures_groups(2) [OF g]] .
  then have "\<forall>kg\<in>set groups. locate [q, lower (fst kg) @ ''.geojson''] \<noteq> Inr n" by force
  from writeGroups_other [OF w this] show ?thesis .
qed

lemma groupAndWrite_names:
  assumes gw: "groupAndWrite nts locate lower q q incoming fs0 = Inr (groups, fs)"
  shows "Inr ` fst ` set fs = Inr ` fst ` set fs0 \<union> locate ` set (valuePaths lower q incoming)"
proof -
  from groupAndWrite_parts [OF gw] have g: "groupFeatures nts q incoming = Inr groups"
    and w: "writeGroups locate lower q groups fs0 = Inr fs"
    by simp_all
  show ?thesis
    unfolding writeGroups_names [OF w] group_paths [OF groupFeatures_groups(2) [OF g]] ..
qed

lemma mset_by_values:
  "distinct vs \<Longrightarrow>
   mset (concat (map (\<lambda>v. filter (\<lambda>s. sel s = Str v) xs) vs))
     = mset (filter (\<lambda>s. \<exists>v\<in>set vs. sel s = Str v) xs)"
proof (induction vs)
  case Nil
  then show ?case by simp
next
  case (Cons a vs)
  then have IH: "mset (concat (map (\<lambda>v. filter (\<lambda>s. sel s = Str v) xs) vs))
     = mset (filter (\<lambda>s. \<exists>v\<in>set vs. sel s = Str v) xs)"
    and a: "a \<notin> set vs"
    by simp_all
  have "filter_mset (\<lambda>s. sel s = Str a) (mset xs) + filter_mset (\<lambda>s. \<exists>v\<in>set vs. sel s = Str v) (mset xs)
      = filter_mset (\<lambda>s. sel s = Str a \<or> (\<exists>v\<in>set vs. sel s = Str v)) (mset xs)"
    using a by (intro multiset_eqI) auto
  with IH show ?case by simp
qed

lemma features_by_value:
  "mset (concat (map (\<lambda>v. filter (\<lambda>s. field (properties s) p = Str v) incoming)
                    (stringValues p incoming)))
     = mset (filter (\<lambda>s. isString (field (properties s) p)) incoming)"
proof -
  have "filter (\<lambda>s. \<exists>v\<in>set (stringValues p incoming). field (properties s) p = Str v) incoming
      = filter (\<lambda>s. isString (field (properties s) p)) incoming"
    by (rule filter_cong) (auto simp: stringValues_set isString_def split: prim.splits)
  with mset_by_values [OF stringValues_distinct, of "\<lambda>s. field (properties s) p" incoming p incoming]
  show ?thesis by simp
qed

lemma valueFiles_located:
  assumes loc: "\<forall>v\<in>set (stringValues p incoming). locate [p, lower v @ ''.geojson''] = Inr (nm v)"
    and own: "distinct (map locate (valuePaths lower p incoming))"
  shows "valueFiles locate lower p incoming = map nm (stringValues p incoming)"
proof -
  have c: "concat (map (\<lambda>path. case locate path of Inl e \<Rightarrow> [] | Inr file \<Rightarrow> [file])
                      (map (\<lambda>v. [p, lower v @ ''.geojson'']) vs)) = map nm vs"
    if "\<forall>v\<in>set vs. locate [p, lower v @ ''.geojson''] = Inr (nm v)" for vs
    using that by (induction vs) simp_all
  have "map locate (valuePaths lower p incoming) = map (\<lambda>v. Inr (nm v)) (stringValues p incoming)"
    using loc by (simp add: valuePaths_def)
  with own have "distinct (map (\<lambda>v. (Inr (nm v) :: exn + string)) (stringValues p incoming))" by simp
  then have "distinct (map nm (stringValues p incoming))"
    by (simp add: distinct_map inj_on_def)
  with c [OF loc] show ?thesis by (simp add: valueFiles_def valuePaths_def)
qed

text \<open>
  C7, as the code has it, for \<open>p\<close> either of the two grouping properties and \<open>q\<close> the
  other. When the run writes all its files, the paths made for the distinct strings
  under \<open>p\<close> name files that differ from one another, and these files differ from every
  other file the run writes (\<open>all.geojson\<close>, \<open>metadata.json\<close>, the files for the strings
  under \<open>q\<close>), then: the file of each string holds exactly the features given to
  \<open>all.geojson\<close> that have this string under \<open>p\<close>, in their order there; the files of
  \<open>p\<close> are as many as its strings and hold together the features with a string under
  \<open>p\<close>, each as often as it occurs in what was given to \<open>all.geojson\<close>; and the run has
  written the files of the two properties, \<open>all.geojson\<close> and \<open>metadata.json\<close>, and no
  other file. If moreover no other path the run writes names the file of
  \<open>all.geojson\<close>, that file holds the features at the end.
\<close>

theorem grouping_completeness:
  assumes run: "writeOutputs nts locate lower incoming = (None, fs)"
    and pq: "(p, q) = (''state'', ''emergency_services'') \<or> (p, q) = (''emergency_services'', ''state'')"
    and own: "distinct (map locate (valuePaths lower p incoming))"
    and others: "\<forall>a\<in>set (valuePaths lower p incoming). \<forall>b\<in>set (otherPaths lower q incoming).
                   locate a \<noteq> locate b"
  shows "(\<forall>v\<in>set (stringValues p incoming).
            fileAt locate fs [p, lower v @ ''.geojson'']
              = Some (FeatureCollection (filter (\<lambda>s. field (properties s) p = Str v) incoming))) \<and>
         length (valueFiles locate lower p incoming) = length (stringValues p incoming) \<and>
         distinct (valueFiles locate lower p incoming) \<and>
         mset (groupedFeatures locate lower p incoming fs)
           = mset (filter (\<lambda>s. isString (field (properties s) p)) incoming) \<and>
         Inr ` fst ` set fs
           = locate ` set (valuePaths lower p incoming @ otherPaths lower q incoming) \<and>
         ((\<forall>b\<in>set ([''metadata.json''] # valuePaths lower q incoming).
             locate [''all.geojson''] \<noteq> locate b)
          \<longrightarrow> fileAt locate fs [''all.geojson''] = Some (FeatureCollection incoming))"
proof -
  let ?S = "''state''" and ?E = "''emergency_services''"
  let ?content = "\<lambda>v. FeatureCollection (filter (\<lambda>s. field (properties s) p = Str v) incoming)"
  from run obtain fs1 byState fs2 byES fs3 where
    w1: "writeObjectToFile locate [''all.geojson''] (FeatureCollection incoming) [] = Inr fs1" and
    a: "groupAndWrite nts locate lower ?S ?S incoming fs1 = Inr (byState, fs2)" and
    b: "groupAndWrite nts locate lower ?E ?E incoming fs2 = Inr (byES, fs3)" and
    w4: "writeObjectToFile locate [''metadata.json'']
           (Metadata (length incoming) [(?S, map fst byState), (?E, map fst byES)]) fs3 = Inr fs"
    unfolding writeOutputs_def by (auto split: sum.splits prod.splits)
  have meta: "locate [''metadata.json''] \<noteq> Inr n"
    if "v \<in> set (stringValues p incoming)" "locate [p, lower v @ ''.geojson''] = Inr n" for v n
  proof -
    from that(1) have "[p, lower v @ ''.geojson''] \<in> set (valuePaths lower p incoming)"
      by (simp add: valuePaths_def)
    with others that(2) show ?thesis by (force simp: otherPaths_def)
  qed
  have qs: "\<forall>b\<in>set (valuePaths lower q incoming). locate b \<noteq> Inr n"
    if "v \<in> set (stringValues p incoming)" "locate [p, lower v @ ''.geojson''] = Inr n" for v n
  proof -
    from that(1) have "[p, lower v @ ''.geojson''] \<in> set (valuePaths lower p incoming)"
      by (simp add: valuePaths_def)
    with others that(2) show ?thesis by (force simp: otherPaths_def)
  qed
  have held: "\<exists>n. locate [p, lower v @ ''.geojson''] = Inr n \<and> map_of fs n = Some (?content v)"
    if v: "v \<in> set (stringValues p incoming)" for v
  proof -
    from pq consider "p = ?S" "q = ?E" | "p = ?E" "q = ?S" by auto
    then show ?thesis
    proof cases
      case 1
      from groupAndWrite_written [OF a own [unfolded 1] v [unfolded 1]] obtain n where
        n: "locate [p, lower v @ ''.geojson''] = Inr n" and m: "map_of fs2 n = Some (?content v)"
        unfolding 1 by blast
      from groupAndWrite_other [OF b qs [OF v n, unfolded 1]] have "map_of fs3 n = map_of fs2 n" .
      moreover from write_other [OF w4 meta [OF v n]] have "map_of fs n = map_of fs3 n" .
      ultimately show ?thesis using n m by simp
    next
      case 2
      from groupAndWrite_written [OF b own [unfolded 2] v [unfolded 2]] obtain n where
        n: "locate [p, lower v @ ''.geojson''] = Inr n" and m: "map_of fs3 n = Some (?content v)"
        unfolding 2 by blast
      from write_other [OF w4 meta [OF v n]] have "map_of fs n = map_of fs3 n" .
      with n m show ?thesis by simp
    qed
  qed
  have files: "\<forall>v\<in>set (stringValues p incoming).
      fileAt locate fs [p, lower v @ ''.geojson''] = Some (?content v)"
    using held by (fastforce simp: fileAt_def)
  define nm where "nm v = projr (locate [p, lower v @ ''.geojson''])" for v
  have loc: "\<forall>v\<in>set (stringValues p incoming). locate [p, lower v @ ''.geojson''] = Inr (nm v)"
    using held by (fastforce simp: nm_def)
  note vf = valueFiles_located [OF loc own]
  have len: "length (valueFiles locate lower p incoming) = length (stringValues p incoming)"
    unfolding vf by simp
  have "map locate (valuePaths lower p incoming) = map (\<lambda>v. Inr (nm v)) (stringValues p incoming)"
    using loc by (simp add: valuePaths_def)
  with own have "distinct (map (\<lambda>v. (Inr (nm v) :: exn + string)) (stringValues p incoming))" by simp
  then have dis: "distinct (valueFiles locate lower p incoming)"
    unfolding vf by (simp add: distinct_map inj_on_def)
  have eq: "map (\<lambda>v. case map_of fs (nm v) of None \<Rightarrow> [] | Some d \<Rightarrow> featuresOf d)
            (stringValues p incoming)
      = map (\<lambda>v. filter (\<lambda>s. field (properties s) p = Str v) incoming) (stringValues p incoming)"
  proof (rule map_cong [OF refl])
    fix v
    assume v: "v \<in> set (stringValues p incoming)"
    from bspec [OF files v] bspec [OF loc v]
    show "(case map_of fs (nm v) of None \<Rightarrow> [] | Some d \<Rightarrow> featuresOf d)
        = filter (\<lambda>s. field (properties s) p = Str v) incoming"
      by (simp add: fileAt_def)
  qed
  have all: "mset (groupedFeatures locate lower p incoming fs)
           = mset (filter (\<lambda>s. isString (field (properties s) p)) incoming)"
    unfolding groupedFeatures_def vf map_map comp_def eq by (rule features_by_value)
  have n1: "Inr ` fst ` set fs1 = {locate [''all.geojson'']}"
    using write_names [OF w1] by simp
  have names: "Inr ` fst ` set fs
      = {locate [''all.geojson''], locate [''metadata.json'']}
        \<union> locate ` set (valuePaths lower ?S incoming) \<union> locate ` set (valuePaths lower ?E incoming)"
    unfolding write_names [OF w4] groupAndWrite_names [OF b] groupAndWrite_names [OF a] n1 by blast
  have written: "Inr ` fst ` set fs
           = locate ` set (valuePaths lower p incoming @ otherPaths lower q incoming)"
    unfolding names using pq by (auto simp: otherPaths_def)
  have kept: "fileAt locate fs [''all.geojson''] = Some (FeatureCollection incoming)"
    if apart: "\<forall>b\<in>set ([''metadata.json''] # valuePaths lower q incoming).
             locate [''all.geojson''] \<noteq> locate b"
  proof -
    from w1 obtain n where n: "locate [''all.geojson''] = Inr n"
      by (auto simp: writeObjectToFile_def split: sum.splits)
    from write_this [OF w1 n] have m1: "map_of fs1 n = Some (FeatureCollection incoming)" .
    have ps: "\<forall>b\<in>set (valuePaths lower p incoming). locate b \<noteq> Inr n"
      using others n by (force simp: otherPaths_def)
    have qs': "\<forall>b\<in>set (valuePaths lower q incoming). locate b \<noteq> Inr n"
      using apart n by force
    have S: "\<forall>b\<in>set (valuePaths lower ?S incoming). locate b \<noteq> Inr n"
      and E: "\<forall>b\<in>set (valuePaths lower ?E incoming). locate b \<noteq> Inr n"
      using ps qs' pq by auto
    have "locate [''metadata.json''] \<noteq> Inr n" using apart n by force
    from write_other [OF w4 this] groupAndWrite_other [OF b E] groupAndWrite_other [OF a S] m1 n
    show ?thesis by (simp add: fileAt_def)
  qed
  from files len dis all written kept show ?thesis by blast
qed

lemma sample_outputs:
  "writeOutputs noNumbers plainFiles asciiLowerCase [hospitalA, hospitalUpper]
     = (None, snd (writeOutputs noNumbers plainFiles asciiLowerCase [hospitalA, hospitalUpper]))"
  "distinct (map plainFiles (valuePaths asciiLowerCase ''state'' [hospitalA, hospitalUpper]))"
  "\<forall>a\<in>set (valuePaths asciiLowerCase ''state'' [hospitalA, hospitalUpper]).
     \<forall>b\<in>set (otherPaths asciiLowerCase ''emergency_services'' [hospitalA, hospitalUpper]).
       plainFiles a \<noteq> plainFiles b"
  "stringValues ''state'' [hospitalA, hospitalUpper] = [''Y'', ''CA'']"
  "filter (\<lambda>s. field (properties s) ''state'' = Str ''Y'') [hospitalA, hospitalUpper] = [hospitalA]"
  "filter (\<lambda>s. field (properties s) ''state'' = Str ''CA'') [hospitalA, hospitalUpper] = [hospitalUpper]"
  "filter (\<lambda>s. isString (field (properties s) ''state'')) [hospitalA, hospitalUpper]
     = [hospitalA, hospitalUpper]"
  "asciiLowerCase ''Y'' = ''y''" "asciiLowerCase ''CA'' = ''ca''"
  by code_simp+

theorem grouping_completeness_witness:
  "writeOutputs noNumbers plainFiles asciiLowerCase [hospitalA, hospitalUpper]
     = (None, snd (writeOutputs noNumbers plainFiles asciiLowerCase [hospitalA, hospitalUpper])) \<and>
   fileAt plainFiles (snd (writeOutputs noNumbers plainFiles asciiLowerCase [hospitalA, hospitalUpper]))
       [''state'', ''y.geojson'']
     = Some (FeatureCollection [hospitalA]) \<and>
   fileAt plainFiles (snd (writeOutputs noNumbers plainFiles asciiLowerCase [hospitalA, hospitalUpper]))
       [''state'', ''ca.geojson'']
     = Some (FeatureCollection [hospitalUpper]) \<and>
   length (valueFiles plainFiles asciiLowerCase ''state'' [hospitalA, hospitalUpper]) = 2 \<and>
   mset (groupedFeatures plainFiles asciiLowerCase ''state'' [hospitalA, hospitalUpper]
           (snd (writeOutputs noNumbers plainFiles asciiLowerCase [hospitalA, hospitalUpper])))
     = mset [hospitalA, hospitalUpper]"
proof -
  have pq: "(''state'', ''emergency_services'') = (''state'', ''emergency_services'') \<or>
      (''state'', ''emergency_services'') = (''emergency_services'', ''state'')"
    by simp
  note T = grouping_completeness [OF sample_outputs(1) pq sample_outputs(2) sample_outputs(3)]
  let ?fs = "snd (writeOutputs noNumbers plainFiles asciiLowerCase [hospitalA, hospitalUpper])"
  from T have c: "\<forall>v\<in>set (stringValues ''state'' [hospitalA, hospitalUpper]).
      fileAt plainFiles ?fs [''state'', asciiLowerCase v @ ''.geojson'']
      = Some (FeatureCollection
           (filter (\<lambda>s. field (properties s) ''state'' = Str v) [hospitalA, hospitalUpper]))"
    by (rule conjunct1)
  have y: "''Y'' \<in> set (stringValues ''state'' [hospitalA, hospitalUpper])"
    and ca: "''CA'' \<in> set (stringValues ''state'' [hospitalA, hospitalUpper])"
    unfolding sample_outputs(4) by simp_all
  have files:
    "fileAt plainFiles ?fs [''state'', ''y.geojson''] = Some (FeatureCollection [hospitalA])"
    "fileAt plainFiles ?fs [''state'', ''ca.geojson''] = Some (FeatureCollection [hospitalUpper])"
    using bspec [OF c y] bspec [OF c ca]
    unfolding sample_outputs(5) sample_outputs(6) sample_outputs(8) sample_outputs(9) by simp_all
  from T have len: "length (valueFiles plainFiles asciiLowerCase ''state'' [hospitalA, hospitalUpper]) = 2"
    unfolding sample_outputs(4) by simp
  from T have all: "mset (groupedFeatures plainFiles asciiLowerCase ''state'' [hospitalA, hospitalUpper]
           (snd (writeOutputs noNumbers plainFiles asciiLowerCase [hospitalA, hospitalUpper])))
     = mset [hospitalA, hospitalUpper]"
    unfolding sample_outputs(7) by blast
  from sample_outputs(1) files len all show ?thesis by (intro conjI)
qed

text \<open>
  C7 as stated fails: two values that differ only in case name the same file, and the
  second group replaces the first.
\<close>

theorem case_collision_loses_features:
  "fst (writeOutputs noNumbers plainFiles asciiLowerCase [hospitalUpper, hospitalLower]) = None \<and>
   fileAt plainFiles (snd (writeOutputs noNumbers plainFiles asciiLowerCase [hospitalUpper, hospitalLower]))
       [''all.geojson'']
     = Some (FeatureCollection [hospitalUpper, hospitalLower]) \<and>
   filter (\<lambda>s. isString (field (properties s) ''state'')) [hospitalUpper, hospitalLower]
     = [hospitalUpper, hospitalLower] \<and>
   valueFiles plainFiles asciiLowerCase ''state'' [hospitalUpper, hospitalLower] = [''state/ca.geojson''] \<and>
   groupedFeatures plainFiles asciiLowerCase ''state'' [hospitalUpper, hospitalLower]
       (snd (writeOutputs noNumbers plainFiles asciiLowerCase [hospitalUpper, hospitalLower]))
     = [hospitalLower]"
  by code_simp

text \<open>A value that names an inherited member stops the grouping.\<close>

lemma groupBy_inherited_key:
  "groupFeatures nts ''state'' [fst (toGeoJsonFeature [(''state'', Str ''constructor'')])]
     = Inl TypeError"
  by (simp add: groupFeatures_def groupBy_def toGeoJsonFeature_def field_def isString_def
        objectPrototypeNames_def)

section \<open>Running again on the previous output\<close>




























text \<open>
  The first run must have read the override file. Without an \<open>all.geojson\<close> in its
  directory it does not: hospital A is geocoded, and the second run, which reads the
  file, moves it to the override.
\<close>

lemma rerun_reads_override_late:
  "map_sum id (reconcile noNumbers cannedService (Str ''k'') [hospitalA])
       (loadExistingDataset noNumbers overrideOnly)
     = Inr ([hospitalA\<lparr> geometry := point 5 6 \<rparr>], 1, None) \<and>
   rerunMerge noNumbers [hospitalA] [hospitalA\<lparr> geometry := point 5 6 \<rparr>] [''A'' \<mapsto> point (- 1) 2]
     = Inr [hospitalA\<lparr> geometry := point (- 1) 2 \<rparr>] \<and>
   storedGeometry (point (- 1) 2) \<noteq> storedGeometry (point 5 6)"
  by code_simp

end
